theory Spec2Isabelle
  imports Main
begin

section \<open>Values, schema and errors (minidb/types.py)\<close>

text \<open>
  A Python \<open>str\<close> is a sequence of code points. The model uses Isabelle strings and reads
  each \<open>char\<close> as one code point below 256, so \<open>length\<close> and list positions count
  characters, as Python's \<open>len\<close> and indexing do.
\<close>

text \<open>The members \<open>INT\<close>, \<open>TEXT\<close> and \<open>BOOL\<close> of the enumeration.\<close>

datatype ColumnType = T_INT | T_TEXT | T_BOOL

datatype Value = IntV int | StrV string | BoolV bool | NoneV

record ColumnDef =
  name :: string
  col_type :: ColumnType
  nullable :: bool
  primary_key :: bool

section \<open>Tokens (minidb/parser.py)\<close>

text \<open>
  A token's kind is the name of the group of the token pattern that matched; the pattern has
  nine named groups, so the kind is one of nine names.
\<close>

datatype kind = WS | NUMBER | STRING | IDENT | LPAREN | RPAREN | COMMA | STAR | SEMICOLON

text \<open>
  The field \<open>text\<close> is declared a \<open>str\<close>, and \<open>tokenize\<close> stores \<open>None\<close> in it for string
  tokens (see \<open>tokenize_loop\<close>), so the model gives it an optional text.
\<close>

record Token =
  kind :: kind
  "text" :: "string option"

section \<open>Errors\<close>

text \<open>The messages of the exceptions, with the data each message is formatted from.\<close>

datatype syntax_error =
    UnexpectedCharacter nat char
  | ExpectedGotEnd kind
  | ExpectedGot kind Token
  | ExpectedTextGot string Token
  | ExpectedKeyword string "Token option"
  | EmptyInput
  | UnknownStatement Token
  | UnexpectedEndInValues
  | ExpectedLiteral Token
  | UnexpectedEndAfterSelect
  | UnexpectedTokenAfterStatement Token

datatype value_error =
    UnsupportedColumnType string
  | TableAlreadyExists string
  | ExpectedValues nat nat
  | ExceedsMaxStrDigits nat

datatype key_error =
    TableDoesNotExist string
  | UnknownColumns "string list"
  | MissingKey string

datatype error =
    SyntaxError syntax_error
  | ValueError value_error
  | KeyError key_error
  | AttributeError
  | TypeError

section \<open>Tables (minidb/table.py)\<close>

text \<open>
  A row is a Python dict: keys are unique and keep the order of their first insertion;
  assigning to a key that is present replaces its value in place.
\<close>

type_synonym Row = "(string \<times> Value) list"

fun dict_setitem :: "('k \<times> 'v) list \<Rightarrow> 'k \<Rightarrow> 'v \<Rightarrow> ('k \<times> 'v) list" where
  "dict_setitem [] k v = [(k, v)]"
| "dict_setitem ((k', v') # d) k v =
     (if k' = k then (k', v) # d else (k', v') # dict_setitem d k v)"

definition dict_getitem :: "('k \<times> 'v) list \<Rightarrow> 'k \<Rightarrow> 'v option" where
  "dict_getitem d k = map_of d k"

definition dict_keys :: "('k \<times> 'v) list \<Rightarrow> 'k list" where
  "dict_keys d = map fst d"

record Table =
  name :: string
  columns :: "ColumnDef list"
  rows :: "Row list"

definition column_names :: "Table \<Rightarrow> string list" where
  "column_names t = map ColumnDef.name (columns t)"

text \<open>The loop \<open>for col, val in zip(self.columns, values): row[col.name] = val\<close>.\<close>

fun bind_row :: "Row \<Rightarrow> (ColumnDef \<times> Value) list \<Rightarrow> Row" where
  "bind_row row [] = row"
| "bind_row row ((col, val) # rest) = bind_row (dict_setitem row (ColumnDef.name col) val) rest"

definition insert_row :: "Table \<Rightarrow> Value list \<Rightarrow> (error + unit) \<times> Table" where
  "insert_row t vals =
     (if length vals \<noteq> length (columns t)
      then (Inl (ValueError (ExpectedValues (length (columns t)) (length vals))), t)
      else (Inr (), t\<lparr>rows := rows t @ [bind_row [] (zip (columns t) vals)]\<rparr>))"

definition scan :: "Table \<Rightarrow> Row list" where
  "scan t = rows t"

text \<open>The dict comprehension \<open>{col: row[col] for col in column_names}\<close>.\<close>

fun project :: "Row \<Rightarrow> string list \<Rightarrow> Row \<Rightarrow> error + Row" where
  "project row [] projected = Inr projected"
| "project row (col # cols) projected =
     (case dict_getitem row col of
        None \<Rightarrow> Inl (KeyError (MissingKey col))
      | Some v \<Rightarrow> project row cols (dict_setitem projected col v))"

fun project_rows :: "Row list \<Rightarrow> string list \<Rightarrow> Row list \<Rightarrow> error + Row list" where
  "project_rows [] cols result = Inr result"
| "project_rows (row # rest) cols result =
     (case project row cols [] of
        Inl e \<Rightarrow> Inl e
      | Inr projected \<Rightarrow> project_rows rest cols (result @ [projected]))"

definition table_select :: "Table \<Rightarrow> string list option \<Rightarrow> error + Row list" where
  "table_select t cols_opt =
     (case cols_opt of
        None \<Rightarrow> Inr (scan t)
      | Some cols \<Rightarrow>
          (let missing = filter (\<lambda>c. c \<notin> set (column_names t)) cols
           in if missing \<noteq> [] then Inl (KeyError (UnknownColumns missing))
              else project_rows (scan t) cols []))"

section \<open>The database (minidb/database.py)\<close>

text \<open>
  \<open>str.lower\<close> on the code points below 256: the ASCII capitals and the Latin-1 capitals
  (U+00C0 to U+00DE without the multiplication sign U+00D7) move up by 32.
\<close>

definition lower_char :: "char \<Rightarrow> char" where
  "lower_char c =
     (let n = (of_char c :: nat)
      in if (65 \<le> n \<and> n \<le> 90) \<or> (192 \<le> n \<and> n \<le> 222 \<and> n \<noteq> 215)
         then char_of (n + 32) else c)"

definition lower :: "string \<Rightarrow> string" where
  "lower s = map lower_char s"

record Database =
  tables :: "string \<rightharpoonup> Table"

definition empty_database :: Database where
  "empty_database = \<lparr>tables = Map.empty\<rparr>"

definition create_table ::
  "Database \<Rightarrow> string \<Rightarrow> ColumnDef list \<Rightarrow> (error + unit) \<times> Database" where
  "create_table db nm cols =
     (let key = lower nm
      in if key \<in> dom (tables db)
         then (Inl (ValueError (TableAlreadyExists nm)), db)
         else (Inr (), db\<lparr>tables := (tables db)(key \<mapsto> \<lparr>name = nm, columns = cols, rows = []\<rparr>)\<rparr>))"

definition get_table :: "Database \<Rightarrow> string \<Rightarrow> error + Table" where
  "get_table db nm =
     (let key = lower nm
      in case tables db key of
           Some t \<Rightarrow> Inr t
         | None \<Rightarrow> Inl (KeyError (TableDoesNotExist nm)))"

text \<open>
  \<open>Database.insert\<close> mutates the table object that the dict holds under the key; the
  model writes the table that \<open>insert_row\<close> returns back under that key.
\<close>

definition insert_db :: "Database \<Rightarrow> string \<Rightarrow> Value list \<Rightarrow> (error + unit) \<times> Database" where
  "insert_db db table_name vals =
     (case get_table db table_name of
        Inl e \<Rightarrow> (Inl e, db)
      | Inr t \<Rightarrow>
          (case insert_row t vals of
             (r, t') \<Rightarrow> (r, db\<lparr>tables := (tables db)(lower table_name \<mapsto> t')\<rparr>)))"

definition select :: "Database \<Rightarrow> string \<Rightarrow> string list option \<Rightarrow> error + Row list" where
  "select db table_name cols_opt =
     (case get_table db table_name of
        Inl e \<Rightarrow> Inl e
      | Inr t \<Rightarrow> table_select t cols_opt)"

section \<open>The tokenizer (minidb/parser.py)\<close>

text \<open>
  The character classes of the token pattern. For a \<open>str\<close> pattern \<open>\s\<close> is Unicode
  white space and \<open>\d\<close> a Unicode decimal digit; below code point 256 these are the
  characters listed here.
\<close>

definition is_space :: "char \<Rightarrow> bool" where
  "is_space c =
     (let n = (of_char c :: nat)
      in (9 \<le> n \<and> n \<le> 13) \<or> (28 \<le> n \<and> n \<le> 32) \<or> n = 133 \<or> n = 160)"

definition is_digit :: "char \<Rightarrow> bool" where
  "is_digit c = (let n = (of_char c :: nat) in 48 \<le> n \<and> n \<le> 57)"

definition is_ident_start :: "char \<Rightarrow> bool" where
  "is_ident_start c =
     (let n = (of_char c :: nat)
      in (65 \<le> n \<and> n \<le> 90) \<or> (97 \<le> n \<and> n \<le> 122) \<or> n = 95)"

definition is_ident_char :: "char \<Rightarrow> bool" where
  "is_ident_char c = (is_ident_start c \<or> (let n = (of_char c :: nat) in 48 \<le> n \<and> n \<le> 57))"

definition quote :: char where
  "quote = CHR 0x27"

text \<open>
  One function for each alternative of the pattern, applied to the text from the current
  position on. Each returns the matched text, the string alternative also the text of its
  inner group; the repetitions are greedy, and the string alternative needs its closing
  quote.
\<close>

definition match_WS :: "string \<Rightarrow> string option" where
  "match_WS s = (let m = takeWhile is_space s in if m = [] then None else Some m)"

definition match_NUMBER :: "string \<Rightarrow> string option" where
  "match_NUMBER s = (let m = takeWhile is_digit s in if m = [] then None else Some m)"

definition match_STRING :: "string \<Rightarrow> (string \<times> string) option" where
  "match_STRING s =
     (case s of
        [] \<Rightarrow> None
      | c # cs \<Rightarrow>
          if c \<noteq> quote then None
          else (let inner = takeWhile (\<lambda>x. x \<noteq> quote) cs
                in if length inner < length cs then Some (quote # inner @ [quote], inner)
                   else None))"

definition match_IDENT :: "string \<Rightarrow> string option" where
  "match_IDENT s =
     (case s of
        [] \<Rightarrow> None
      | c # cs \<Rightarrow> if is_ident_start c then Some (c # takeWhile is_ident_char cs) else None)"

definition match_char :: "char \<Rightarrow> string \<Rightarrow> string option" where
  "match_char p s = (case s of [] \<Rightarrow> None | c # cs \<Rightarrow> if c = p then Some [c] else None)"

text \<open>
  \<open>_TOKEN_REGEX.match(sql, pos)\<close>: the alternatives in their order, the first that matches
  wins. The result is \<open>(lastgroup, group(0), group(2), end())\<close>. Groups are numbered by
  their opening parentheses, the named ones too: \<open>WS\<close> is group 1, \<open>NUMBER\<close> group 2,
  \<open>STRING\<close> group 3 and the quoted content inside it group 4. So \<open>group(2)\<close> is the text of
  the \<open>NUMBER\<close> group, and \<open>None\<close> when another alternative matched. Of the two groups
  of the string alternative the outer one closes last, so \<open>lastgroup\<close> is \<open>STRING\<close>.
\<close>

definition token_regex_match ::
  "string \<Rightarrow> nat \<Rightarrow> (kind \<times> string \<times> string option \<times> nat) option" where
  "token_regex_match sql pos =
     (let s = drop pos sql
      in if match_WS s \<noteq> None
           then Some (WS, the (match_WS s), None, pos + length (the (match_WS s)))
         else if match_NUMBER s \<noteq> None
           then Some (NUMBER, the (match_NUMBER s), Some (the (match_NUMBER s)),
                      pos + length (the (match_NUMBER s)))
         else if match_STRING s \<noteq> None
           then Some (STRING, fst (the (match_STRING s)), None,
                      pos + length (fst (the (match_STRING s))))
         else if match_IDENT s \<noteq> None
           then Some (IDENT, the (match_IDENT s), None, pos + length (the (match_IDENT s)))
         else if match_char (CHR ''('') s \<noteq> None then Some (LPAREN, ''('', None, pos + 1)
         else if match_char (CHR '')'') s \<noteq> None then Some (RPAREN, '')'', None, pos + 1)
         else if match_char (CHR '','') s \<noteq> None then Some (COMMA, '','', None, pos + 1)
         else if match_char (CHR ''*'') s \<noteq> None then Some (STAR, ''*'', None, pos + 1)
         else if match_char (CHR '';'') s \<noteq> None then Some (SEMICOLON, '';'', None, pos + 1)
         else None)"

text \<open>
  The loop of \<open>tokenize\<close>. For a string token the source takes \<open>inner = match.group(2)\<close>
  as the text of the token.
\<close>

function tokenize_loop :: "string \<Rightarrow> nat \<Rightarrow> Token list \<Rightarrow> error + Token list" where
  "tokenize_loop sql pos tokens =
     (if pos < length sql then
        (case token_regex_match sql pos of
           None \<Rightarrow> Inl (SyntaxError (UnexpectedCharacter pos (sql ! pos)))
         | Some (k, txt, group2, e) \<Rightarrow>
             if k = WS then tokenize_loop sql e tokens
             else if k = STRING then tokenize_loop sql e (tokens @ [\<lparr>kind = STRING, text = group2\<rparr>])
             else tokenize_loop sql e (tokens @ [\<lparr>kind = k, text = Some txt\<rparr>]))
      else Inr tokens)"
  by pat_completeness auto
termination
  apply (relation "measure (\<lambda>(sql, pos, tokens). length sql - pos)")
     apply simp
    apply (auto simp: token_regex_match_def match_WS_def match_NUMBER_def match_STRING_def
      match_IDENT_def match_char_def Let_def split: option.splits list.splits if_splits)
  subgoal for sql pos by (cases "takeWhile is_space (drop pos sql)") auto
  subgoal for sql pos by (cases "takeWhile is_digit (drop pos sql)") auto
  done

declare tokenize_loop.simps [simp del]

definition tokenize :: "string \<Rightarrow> error + Token list" where
  "tokenize sql = tokenize_loop sql 0 []"

section \<open>The parser (minidb/parser.py)\<close>

datatype Statement =
    CreateTableStmt string "ColumnDef list"
  | InsertStmt string "Value list"
  | SelectStmt string "string list option"

text \<open>
  \<open>str.upper\<close>, used by \<open>Token.upper\<close> and \<open>ColumnType.from_sql\<close>: the small ASCII and
  Latin-1 letters move down by 32. Three code points below 256 have a capital that is not
  one code point below 256: U+00B5 (capital U+039C), U+00DF (capital \<open>SS\<close>) and U+00FF
  (capital U+0178). The model keeps them as they are, so \<open>upper\<close> is \<open>str.upper\<close> only on
  the texts without them (\<open>upper_exact\<close>); the text of an identifier token is such a text.
\<close>

definition upper_char :: "char \<Rightarrow> char" where
  "upper_char c =
     (let n = (of_char c :: nat)
      in if (97 \<le> n \<and> n \<le> 122) \<or> (224 \<le> n \<and> n \<le> 254 \<and> n \<noteq> 247)
         then char_of (n - 32) else c)"

definition upper :: "string \<Rightarrow> string" where
  "upper s = map upper_char s"

definition upper_exact :: "string \<Rightarrow> bool" where
  "upper_exact s = (\<forall>c \<in> set s. (of_char c :: nat) \<notin> {181, 223, 255})"

text \<open>\<open>Token.upper\<close>; a text that is \<open>None\<close> has no method \<open>upper\<close>.\<close>

definition token_upper :: "Token \<Rightarrow> error + string" where
  "token_upper tok = (case text tok of None \<Rightarrow> Inl AttributeError | Some s \<Rightarrow> Inr (upper s))"

definition from_sql :: "string \<Rightarrow> error + ColumnType" where
  "from_sql type_name =
     (let up = upper type_name
      in if up = ''INT'' then Inr T_INT
         else if up = ''TEXT'' then Inr T_TEXT
         else if up = ''BOOL'' then Inr T_BOOL
         else Inl (ValueError (UnsupportedColumnType type_name)))"

record Parser =
  tokens :: "Token list"
  pos :: nat

definition peek :: "Parser \<Rightarrow> Token option" where
  "peek p = (if pos p < length (tokens p) then Some (tokens p ! pos p) else None)"

definition advance :: "Parser \<Rightarrow> Parser" where
  "advance p = p\<lparr>pos := pos p + 1\<rparr>"

definition match :: "Parser \<Rightarrow> kind \<Rightarrow> string option \<Rightarrow> error + (Token \<times> Parser)" where
  "match p k text_upper =
     (case peek p of
        None \<Rightarrow> Inl (SyntaxError (ExpectedGotEnd k))
      | Some tok \<Rightarrow>
          if kind tok \<noteq> k then Inl (SyntaxError (ExpectedGot k tok))
          else (case text_upper of
                  None \<Rightarrow> Inr (tok, advance p)
                | Some expected \<Rightarrow>
                    (case token_upper tok of
                       Inl e \<Rightarrow> Inl e
                     | Inr up \<Rightarrow>
                         if up \<noteq> expected then Inl (SyntaxError (ExpectedTextGot expected tok))
                         else Inr (tok, advance p))))"

definition match_keyword :: "Parser \<Rightarrow> string \<Rightarrow> error + (Token \<times> Parser)" where
  "match_keyword p keyword =
     (case peek p of
        None \<Rightarrow> Inl (SyntaxError (ExpectedKeyword keyword None))
      | Some tok \<Rightarrow>
          if kind tok \<noteq> IDENT then Inl (SyntaxError (ExpectedKeyword keyword (Some tok)))
          else (case token_upper tok of
                  Inl e \<Rightarrow> Inl e
                | Inr up \<Rightarrow>
                    if up \<noteq> keyword then Inl (SyntaxError (ExpectedKeyword keyword (Some tok)))
                    else Inr (tok, advance p)))"

definition optional :: "Parser \<Rightarrow> kind \<Rightarrow> string option \<Rightarrow> error + (Token option \<times> Parser)" where
  "optional p k text_upper =
     (case peek p of
        None \<Rightarrow> Inr (None, p)
      | Some tok \<Rightarrow>
          if kind tok \<noteq> k then Inr (None, p)
          else (case text_upper of
                  None \<Rightarrow> Inr (Some tok, advance p)
                | Some expected \<Rightarrow>
                    (case token_upper tok of
                       Inl e \<Rightarrow> Inl e
                     | Inr up \<Rightarrow> if up \<noteq> expected then Inr (None, p) else Inr (Some tok, advance p))))"

text \<open>
  Where the source goes on with \<open>tok.text\<close> as the \<open>str\<close> it is declared to be: as a name,
  or as the argument of \<open>from_sql\<close> or \<open>int\<close>. Of the tokens of \<open>tokenize\<close> only the string
  tokens have no text, and the parser takes a text this way from identifier and number
  tokens only. For a token list of another origin the model stops here with a
  \<open>TypeError\<close>, the exception of \<open>int(None)\<close>.
\<close>

definition text_str :: "Token \<Rightarrow> error + string" where
  "text_str tok = (case text tok of None \<Rightarrow> Inl TypeError | Some s \<Rightarrow> Inr s)"

text \<open>The \<open>while True\<close> loop of \<open>_parse_create_table\<close>.\<close>

function create_columns_loop :: "Parser \<Rightarrow> ColumnDef list \<Rightarrow> error + (ColumnDef list \<times> Parser)" where
  "create_columns_loop p cols =
     (case match p IDENT None of
        Inl e \<Rightarrow> Inl e
      | Inr (col_name_tok, p1) \<Rightarrow>
     (case match p1 IDENT None of
        Inl e \<Rightarrow> Inl e
      | Inr (type_tok, p2) \<Rightarrow>
     (case text_str col_name_tok of
        Inl e \<Rightarrow> Inl e
      | Inr col_name \<Rightarrow>
     (case text_str type_tok of
        Inl e \<Rightarrow> Inl e
      | Inr type_name \<Rightarrow>
     (case from_sql type_name of
        Inl e \<Rightarrow> Inl e
      | Inr ty \<Rightarrow>
     (case optional p2 COMMA None of
        Inl e \<Rightarrow> Inl e
      | Inr (comma_tok, p3) \<Rightarrow>
          if comma_tok \<noteq> None
          then create_columns_loop p3
                 (cols @ [\<lparr>ColumnDef.name = col_name, col_type = ty,
                            nullable = True, primary_key = False\<rparr>])
          else Inr (cols @ [\<lparr>ColumnDef.name = col_name, col_type = ty,
                              nullable = True, primary_key = False\<rparr>], p3)))))))"
  by pat_completeness auto
termination
  apply (relation "measure (\<lambda>(p, cols). length (tokens p) - pos p)")
   apply simp
  apply (auto simp: match_def optional_def peek_def advance_def split: option.splits if_splits)
  done

declare create_columns_loop.simps [simp del]

definition parse_create_table :: "Parser \<Rightarrow> error + (Statement \<times> Parser)" where
  "parse_create_table p =
     (case match_keyword p ''CREATE'' of
        Inl e \<Rightarrow> Inl e
      | Inr (_, p1) \<Rightarrow>
     (case match_keyword p1 ''TABLE'' of
        Inl e \<Rightarrow> Inl e
      | Inr (_, p2) \<Rightarrow>
     (case match p2 IDENT None of
        Inl e \<Rightarrow> Inl e
      | Inr (name_tok, p3) \<Rightarrow>
     (case text_str name_tok of
        Inl e \<Rightarrow> Inl e
      | Inr table_name \<Rightarrow>
     (case match p3 LPAREN None of
        Inl e \<Rightarrow> Inl e
      | Inr (_, p4) \<Rightarrow>
     (case create_columns_loop p4 [] of
        Inl e \<Rightarrow> Inl e
      | Inr (cols, p5) \<Rightarrow>
     (case match p5 RPAREN None of
        Inl e \<Rightarrow> Inl e
      | Inr (_, p6) \<Rightarrow>
     (case optional p6 SEMICOLON None of
        Inl e \<Rightarrow> Inl e
      | Inr (_, p7) \<Rightarrow> Inr (CreateTableStmt table_name cols, p7)))))))))"

text \<open>
  \<open>int(s)\<close> for a text \<open>s\<close> that is a run of decimal digits, which the text of a number
  token of \<open>tokenize\<close> is: the number the digits denote, and a \<open>ValueError\<close> when there are
  more digits than the interpreter converts, 4300 unless it is set otherwise. On other
  texts (a sign, blanks, underscores, other characters) \<open>int\<close> is not what is defined
  here; the theorems below take number tokens with digit texts only.
\<close>

definition int_max_str_digits :: nat where
  "int_max_str_digits = 4300"

definition int_of_text :: "string \<Rightarrow> int" where
  "int_of_text s = foldl (\<lambda>acc c. acc * 10 + (int (of_char c) - 48)) 0 s"

definition int_of_str :: "string \<Rightarrow> error + int" where
  "int_of_str s =
     (if int_max_str_digits < length s then Inl (ValueError (ExceedsMaxStrDigits (length s)))
      else Inr (int_of_text s))"

text \<open>
  The value that \<open>_parse_insert\<close> appends for a literal token: \<open>int(tok.text)\<close> for a number
  token, \<open>tok.text\<close> itself for a string token, which is \<open>None\<close> where the token has no text.
\<close>

definition number_value :: "Token \<Rightarrow> error + Value" where
  "number_value tok =
     (case text_str tok of
        Inl e \<Rightarrow> Inl e
      | Inr s \<Rightarrow> (case int_of_str s of Inl e \<Rightarrow> Inl e | Inr n \<Rightarrow> Inr (IntV n)))"

definition string_value :: "Token \<Rightarrow> Value" where
  "string_value tok = (case text tok of None \<Rightarrow> NoneV | Some s \<Rightarrow> StrV s)"

text \<open>The \<open>while True\<close> loop of \<open>_parse_insert\<close>.\<close>

function insert_values_loop :: "Parser \<Rightarrow> Value list \<Rightarrow> error + (Value list \<times> Parser)" where
  "insert_values_loop p vals =
     (case peek p of
        None \<Rightarrow> Inl (SyntaxError UnexpectedEndInValues)
      | Some tok \<Rightarrow>
     (case (if kind tok = NUMBER then
              (case number_value tok of Inl e \<Rightarrow> Inl e | Inr v \<Rightarrow> Inr (advance p, vals @ [v]))
            else if kind tok = STRING then Inr (advance p, vals @ [string_value tok])
            else Inl (SyntaxError (ExpectedLiteral tok))) of
        Inl e \<Rightarrow> Inl e
      | Inr (p1, vals') \<Rightarrow>
     (case optional p1 COMMA None of
        Inl e \<Rightarrow> Inl e
      | Inr (comma_tok, p2) \<Rightarrow>
          if comma_tok \<noteq> None then insert_values_loop p2 vals' else Inr (vals', p2))))"
  by pat_completeness auto
termination
  apply (relation "measure (\<lambda>(p, vals). length (tokens p) - pos p)")
   apply simp
  apply (auto simp: optional_def peek_def advance_def split: option.splits if_splits sum.splits)
  done

declare insert_values_loop.simps [simp del]

definition parse_insert :: "Parser \<Rightarrow> error + (Statement \<times> Parser)" where
  "parse_insert p =
     (case match_keyword p ''INSERT'' of
        Inl e \<Rightarrow> Inl e
      | Inr (_, p1) \<Rightarrow>
     (case match_keyword p1 ''INTO'' of
        Inl e \<Rightarrow> Inl e
      | Inr (_, p2) \<Rightarrow>
     (case match p2 IDENT None of
        Inl e \<Rightarrow> Inl e
      | Inr (table_tok, p3) \<Rightarrow>
     (case text_str table_tok of
        Inl e \<Rightarrow> Inl e
      | Inr table_name \<Rightarrow>
     (case match_keyword p3 ''VALUES'' of
        Inl e \<Rightarrow> Inl e
      | Inr (_, p4) \<Rightarrow>
     (case match p4 LPAREN None of
        Inl e \<Rightarrow> Inl e
      | Inr (_, p5) \<Rightarrow>
     (case insert_values_loop p5 [] of
        Inl e \<Rightarrow> Inl e
      | Inr (vals, p6) \<Rightarrow>
     (case match p6 RPAREN None of
        Inl e \<Rightarrow> Inl e
      | Inr (_, p7) \<Rightarrow>
     (case optional p7 SEMICOLON None of
        Inl e \<Rightarrow> Inl e
      | Inr (_, p8) \<Rightarrow> Inr (InsertStmt table_name vals, p8))))))))))"

text \<open>The \<open>while True\<close> loop of \<open>_parse_select\<close>.\<close>

function select_columns_loop :: "Parser \<Rightarrow> string list \<Rightarrow> error + (string list \<times> Parser)" where
  "select_columns_loop p cols =
     (case match p IDENT None of
        Inl e \<Rightarrow> Inl e
      | Inr (ident_tok, p1) \<Rightarrow>
     (case text_str ident_tok of
        Inl e \<Rightarrow> Inl e
      | Inr col \<Rightarrow>
     (case optional p1 COMMA None of
        Inl e \<Rightarrow> Inl e
      | Inr (comma_tok, p2) \<Rightarrow>
          if comma_tok \<noteq> None then select_columns_loop p2 (cols @ [col])
          else Inr (cols @ [col], p2))))"
  by pat_completeness auto
termination
  apply (relation "measure (\<lambda>(p, cols). length (tokens p) - pos p)")
   apply simp
  apply (auto simp: match_def optional_def peek_def advance_def split: option.splits if_splits)
  done

declare select_columns_loop.simps [simp del]

definition parse_select :: "Parser \<Rightarrow> error + (Statement \<times> Parser)" where
  "parse_select p =
     (case match_keyword p ''SELECT'' of
        Inl e \<Rightarrow> Inl e
      | Inr (_, p1) \<Rightarrow>
     (case peek p1 of
        None \<Rightarrow> Inl (SyntaxError UnexpectedEndAfterSelect)
      | Some tok \<Rightarrow>
     (case (if kind tok = STAR then Inr (None, advance p1)
            else (case select_columns_loop p1 [] of
                    Inl e \<Rightarrow> Inl e
                  | Inr (cols, p2) \<Rightarrow> Inr (Some cols, p2))) of
        Inl e \<Rightarrow> Inl e
      | Inr (cols_opt, p3) \<Rightarrow>
     (case match_keyword p3 ''FROM'' of
        Inl e \<Rightarrow> Inl e
      | Inr (_, p4) \<Rightarrow>
     (case match p4 IDENT None of
        Inl e \<Rightarrow> Inl e
      | Inr (table_tok, p5) \<Rightarrow>
     (case text_str table_tok of
        Inl e \<Rightarrow> Inl e
      | Inr table_name \<Rightarrow>
     (case optional p5 SEMICOLON None of
        Inl e \<Rightarrow> Inl e
      | Inr (_, p6) \<Rightarrow> Inr (SelectStmt table_name cols_opt, p6))))))))"

definition parse_statement :: "Parser \<Rightarrow> error + (Statement \<times> Parser)" where
  "parse_statement p =
     (case peek p of
        None \<Rightarrow> Inl (SyntaxError EmptyInput)
      | Some tok \<Rightarrow>
          if kind tok = IDENT then
            (case token_upper tok of
               Inl e \<Rightarrow> Inl e
             | Inr up \<Rightarrow>
                 if up = ''CREATE'' then parse_create_table p
                 else if up = ''INSERT'' then parse_insert p
                 else if up = ''SELECT'' then parse_select p
                 else Inl (SyntaxError (UnknownStatement tok)))
          else Inl (SyntaxError (UnknownStatement tok)))"

definition parse_tokens :: "Token list \<Rightarrow> error + Statement" where
  "parse_tokens toks =
     (case parse_statement \<lparr>tokens = toks, pos = 0\<rparr> of
        Inl e \<Rightarrow> Inl e
      | Inr (stmt, p) \<Rightarrow>
          (case peek p of
             Some extra \<Rightarrow> Inl (SyntaxError (UnexpectedTokenAfterStatement extra))
           | None \<Rightarrow> Inr stmt))"

definition parse :: "string \<Rightarrow> error + Statement" where
  "parse sql = (case tokenize sql of Inl e \<Rightarrow> Inl e | Inr toks \<Rightarrow> parse_tokens toks)"

section \<open>The engine (minidb/engine.py) and the session loop (main.py)\<close>

definition execute :: "Database \<Rightarrow> Statement \<Rightarrow> (error + Row list option) \<times> Database" where
  "execute db stmt =
     (case stmt of
        CreateTableStmt nm cols \<Rightarrow>
          (case create_table db nm cols of (r, db') \<Rightarrow> (map_sum id (\<lambda>_. None) r, db'))
      | InsertStmt table_name vals \<Rightarrow>
          (case insert_db db table_name vals of (r, db') \<Rightarrow> (map_sum id (\<lambda>_. None) r, db'))
      | SelectStmt table_name cols_opt \<Rightarrow> (map_sum id Some (select db table_name cols_opt), db))"

text \<open>
  One turn of the session loop: parse, then execute; an exception of either is reported and
  the database stays as the failed call left it.
\<close>

definition run_sql :: "Database \<Rightarrow> string \<Rightarrow> (error + Row list option) \<times> Database" where
  "run_sql db sql = (case parse sql of Inl e \<Rightarrow> (Inl e, db) | Inr stmt \<Rightarrow> execute db stmt)"

fun run_all :: "Database \<Rightarrow> string list \<Rightarrow> Database" where
  "run_all db [] = db"
| "run_all db (sql # rest) = run_all (snd (run_sql db sql)) rest"

section \<open>Well-formed rows and reachable states\<close>

text \<open>
  A row matches its table when its keys are pairwise different, are exactly the declared
  column names, and stand in declared order where the declared names are pairwise
  different.
\<close>

definition row_matches :: "Table \<Rightarrow> Row \<Rightarrow> bool" where
  "row_matches t r =
     (distinct (dict_keys r) \<and> set (dict_keys r) = set (column_names t) \<and>
      (distinct (column_names t) \<longrightarrow> dict_keys r = column_names t))"

definition consistent :: "Database \<Rightarrow> bool" where
  "consistent db =
     (\<forall>k t. tables db k = Some t \<longrightarrow>
        k = lower (Table.name t) \<and> (\<forall>r \<in> set (rows t). row_matches t r))"

text \<open>The states a session reaches: the empty database, and one more statement executed.\<close>

inductive reachable :: "Database \<Rightarrow> bool" where
  initial: "reachable empty_database"
| step: "reachable db \<Longrightarrow> reachable (snd (execute db stmt))"

definition new_table :: "string \<Rightarrow> ColumnDef list \<Rightarrow> Table" where
  "new_table nm cols = \<lparr>Table.name = nm, columns = cols, rows = []\<rparr>"

text \<open>A sequence of inserts, each of which has to succeed.\<close>

fun insert_all :: "Database \<Rightarrow> (string \<times> Value list) list \<Rightarrow> error + Database" where
  "insert_all db [] = Inr db"
| "insert_all db ((n, vals) # rest) =
     (case insert_db db n vals of
        (Inl e, db') \<Rightarrow> Inl e
      | (Inr u, db') \<Rightarrow> insert_all db' rest)"

section \<open>Positions of the scan and the byte offset\<close>

text \<open>The positions at which the loop of \<open>tokenize\<close> tries the pattern.\<close>

inductive scan_reaches :: "string \<Rightarrow> nat \<Rightarrow> bool" where
  start: "scan_reaches sql 0"
| next_match: "scan_reaches sql i \<Longrightarrow> i < length sql \<Longrightarrow>
     token_regex_match sql i = Some (k, tx, g2, e) \<Longrightarrow> scan_reaches sql e"

text \<open>The tokens one match appends to the token list.\<close>

definition emitted :: "kind \<Rightarrow> string \<Rightarrow> string option \<Rightarrow> Token list" where
  "emitted k tx g2 =
     (if k = WS then []
      else if k = STRING then [\<lparr>kind = STRING, text = g2\<rparr>]
      else [\<lparr>kind = k, text = Some tx\<rparr>])"

text \<open>
  What holds of every token of \<open>tokenize\<close>: it is no white space token, and it has no text
  exactly when it is a string token.
\<close>

definition from_tokenizer :: "Token \<Rightarrow> bool" where
  "from_tokenizer t = (kind t \<noteq> WS \<and> (kind t = STRING) = (text t = None))"

text \<open>
  Byte offsets. The source has no bytes; the offset of a position in the UTF-8 encoding of
  the text counts one byte for a code point below 128 and two for one from 128 to 255.
\<close>

definition utf8_length :: "char \<Rightarrow> nat" where
  "utf8_length c = (if (of_char c :: nat) < 128 then 1 else 2)"

definition utf8_offset :: "string \<Rightarrow> nat \<Rightarrow> nat" where
  "utf8_offset sql i = sum_list (map utf8_length (take i sql))"

text \<open>
  No alternative of the pattern can start at the character at position \<open>i\<close>: it is no
  white space, digit, letter, underscore or punctuation mark of the pattern, and if it is
  a quote, no quote follows it.
\<close>

definition no_pattern_at :: "string \<Rightarrow> nat \<Rightarrow> bool" where
  "no_pattern_at sql i =
     (let c = sql ! i
      in \<not> is_space c \<and> \<not> is_digit c \<and> \<not> is_ident_start c \<and> c \<notin> set ''(),*;'' \<and>
         (c = quote \<longrightarrow> quote \<notin> set (drop (Suc i) sql)))"

text \<open>A text of the shape of the identifier alternative of the pattern.\<close>

definition is_identifier :: "string \<Rightarrow> bool" where
  "is_identifier s = (s \<noteq> [] \<and> is_ident_start (hd s) \<and> (\<forall>c \<in> set (tl s). is_ident_char c))"

section \<open>Token sequences of statements\<close>

text \<open>A parser that has consumed the tokens \<open>before\<close> and has \<open>rest\<close> ahead.\<close>

definition parser_at :: "Token list \<Rightarrow> Token list \<Rightarrow> Parser" where
  "parser_at before rest = \<lparr>tokens = before @ rest, pos = length before\<rparr>"

text \<open>The tokens as the tokenizer produces them.\<close>

definition ident :: "string \<Rightarrow> Token" where
  "ident s = \<lparr>kind = IDENT, text = Some s\<rparr>"

definition number :: "string \<Rightarrow> Token" where
  "number s = \<lparr>kind = NUMBER, text = Some s\<rparr>"

definition string_token :: Token where
  "string_token = \<lparr>kind = STRING, text = None\<rparr>"

definition lparen :: Token where
  "lparen = \<lparr>kind = LPAREN, text = Some ''(''\<rparr>"

definition rparen :: Token where
  "rparen = \<lparr>kind = RPAREN, text = Some '')''\<rparr>"

definition comma :: Token where
  "comma = \<lparr>kind = COMMA, text = Some '',''\<rparr>"

definition star :: Token where
  "star = \<lparr>kind = STAR, text = Some ''*''\<rparr>"

definition semicolon :: Token where
  "semicolon = \<lparr>kind = SEMICOLON, text = Some '';''\<rparr>"

text \<open>Groups of tokens with a comma between each two.\<close>

fun comma_separated :: "Token list list \<Rightarrow> Token list" where
  "comma_separated [] = []"
| "comma_separated [x] = x"
| "comma_separated (x # y # r) = x @ comma # comma_separated (y # r)"

text \<open>What may follow a statement: nothing, or one semicolon.\<close>

definition statement_end :: "Token list \<Rightarrow> bool" where
  "statement_end tail = (tail = [] \<or> tail = [semicolon])"

text \<open>Complete column declarations, each followed by a comma.\<close>

definition columns_before :: "(string \<times> string) list \<Rightarrow> Token list" where
  "columns_before cols = concat (map (\<lambda>(c, ty). [ident c, ident ty, comma]) cols)"

definition type_keyword :: "ColumnType \<Rightarrow> string" where
  "type_keyword T = (case T of T_INT \<Rightarrow> ''INT'' | T_TEXT \<Rightarrow> ''TEXT'' | T_BOOL \<Rightarrow> ''BOOL'')"

text \<open>The column definition \<open>ColumnDef(name, col_type)\<close> with the defaults of its flags.\<close>

definition column :: "string \<Rightarrow> ColumnType \<Rightarrow> ColumnDef" where
  "column c T = \<lparr>ColumnDef.name = c, col_type = T, nullable = True, primary_key = False\<rparr>"

text \<open>
  A text as a number token of \<open>tokenize\<close> has it, short enough for \<open>int\<close>: a run of at least
  one and at most 4300 decimal digits.
\<close>

definition is_digits :: "string \<Rightarrow> bool" where
  "is_digits s = (s \<noteq> [] \<and> (\<forall>c \<in> set s. is_digit c) \<and> length s \<le> int_max_str_digits)"

text \<open>
  A literal token: a number token with such a text, or a string token. The value parsed
  from it.
\<close>

definition is_literal :: "Token \<Rightarrow> bool" where
  "is_literal t =
     ((kind t = NUMBER \<and> (case text t of None \<Rightarrow> False | Some s \<Rightarrow> is_digits s)) \<or>
      kind t = STRING)"

definition literal_value :: "Token \<Rightarrow> Value" where
  "literal_value t =
     (if kind t = NUMBER then IntV (int_of_text (case text t of Some s \<Rightarrow> s | None \<Rightarrow> []))
      else string_value t)"

section \<open>Example data\<close>

definition users_columns :: "ColumnDef list" where
  "users_columns =
     [\<lparr>ColumnDef.name = ''id'', col_type = T_INT, nullable = True, primary_key = False\<rparr>,
      \<lparr>ColumnDef.name = ''name'', col_type = T_TEXT, nullable = True, primary_key = False\<rparr>]"

definition users_table :: Table where
  "users_table = \<lparr>Table.name = ''Users'', columns = users_columns, rows = []\<rparr>"

definition users_db :: Database where
  "users_db = \<lparr>tables = [''users'' \<mapsto> users_table]\<rparr>"

definition alice_table :: Table where
  "alice_table = users_table\<lparr>rows := [[(''id'', IntV 1), (''name'', StrV ''Alice'')]]\<rparr>"

definition alice_db :: Database where
  "alice_db = \<lparr>tables = [''users'' \<mapsto> alice_table]\<rparr>"

section \<open>Dicts and rows\<close>

lemma map_of_dict_setitem: "map_of (dict_setitem d k v) = (map_of d)(k \<mapsto> v)"
  by (induction d k v rule: dict_setitem.induct) auto

lemma keys_dict_setitem:
  "map fst (dict_setitem d k v) = (if k \<in> set (map fst d) then map fst d else map fst d @ [k])"
  by (induction d k v rule: dict_setitem.induct) auto

lemma dict_setitem_fresh: "k \<notin> set (map fst d) \<Longrightarrow> dict_setitem d k v = d @ [(k, v)]"
  by (induction d k v rule: dict_setitem.induct) auto

lemma distinct_dict_setitem: "distinct (map fst d) \<Longrightarrow> distinct (map fst (dict_setitem d k v))"
  by (simp add: keys_dict_setitem)

lemma bind_row_distinct:
  "distinct (map fst row @ map (\<lambda>p. ColumnDef.name (fst p)) kvs) \<Longrightarrow>
   bind_row row kvs = row @ map (\<lambda>p. (ColumnDef.name (fst p), snd p)) kvs"
proof (induction row kvs rule: bind_row.induct)
  case (1 row)
  then show ?case by simp
next
  case (2 row col val rest)
  then show ?case by (simp add: dict_setitem_fresh)
qed

lemma bind_row_keys_set:
  "set (map fst (bind_row row kvs)) =
   set (map fst row) \<union> set (map (\<lambda>p. ColumnDef.name (fst p)) kvs)"
  by (induction row kvs rule: bind_row.induct) (auto simp: keys_dict_setitem split: if_splits)

lemma bind_row_keys_distinct:
  "distinct (map fst row) \<Longrightarrow> distinct (map fst (bind_row row kvs))"
  by (induction row kvs rule: bind_row.induct) (auto simp: distinct_dict_setitem)

section \<open>Insert\<close>

lemma get_table_Some: "get_table db n = Inr t \<Longrightarrow> tables db (lower n) = Some t"
  by (auto simp: get_table_def Let_def split: option.splits)

lemma lower_users: "lower ''USERS'' = ''users''"
  by code_simp




section \<open>The invariant of reachable states\<close>

lemma row_matches_bind_row:
  assumes "length vals = length (columns t)"
  shows "row_matches t (bind_row [] (zip (columns t) vals))"
proof -
  have "map (\<lambda>p. ColumnDef.name (fst p)) (zip (columns t) vals) = map ColumnDef.name (columns t)"
    using assms by (simp flip: map_map [unfolded comp_def])
  then show ?thesis
    using bind_row_keys_set [of "[]" "zip (columns t) vals"]
      bind_row_keys_distinct [of "[]" "zip (columns t) vals"]
      bind_row_distinct [of "[]" "zip (columns t) vals"] assms
    by (simp add: row_matches_def dict_keys_def column_names_def comp_def)
qed

lemma consistent_empty: "consistent empty_database"
  by (simp add: consistent_def empty_database_def)

lemma consistent_create_table: "consistent db \<Longrightarrow> consistent (snd (create_table db nm cols))"
  by (auto simp: consistent_def create_table_def Let_def)

lemma consistent_insert_db:
  assumes "consistent db"
  shows "consistent (snd (insert_db db n vals))"
proof (cases "get_table db n")
  case (Inl e)
  then show ?thesis using assms by (simp add: insert_db_def)
next
  case (Inr t)
  then have t: "tables db (lower n) = Some t" by (rule get_table_Some)
  show ?thesis
  proof (cases "length vals = length (columns t)")
    case True
    have "row_matches t (bind_row [] (zip (columns t) vals))"
      using True by (rule row_matches_bind_row)
    then show ?thesis
      using assms t Inr True
      by (auto simp: consistent_def insert_db_def insert_row_def row_matches_def column_names_def)
  next
    case False
    then show ?thesis using assms t Inr
      by (simp add: insert_db_def insert_row_def map_upd_triv)
  qed
qed

lemma snd_execute:
  "snd (execute db stmt) =
     (case stmt of
        CreateTableStmt nm cols \<Rightarrow> snd (create_table db nm cols)
      | InsertStmt n vals \<Rightarrow> snd (insert_db db n vals)
      | SelectStmt n cols_opt \<Rightarrow> db)"
  by (simp add: execute_def split: Statement.splits prod.splits)

lemma consistent_execute: "consistent db \<Longrightarrow> consistent (snd (execute db stmt))"
  by (simp add: snd_execute consistent_create_table consistent_insert_db split: Statement.splits)

lemma reachable_consistent: "reachable db \<Longrightarrow> consistent db"
  by (induction rule: reachable.induct) (auto intro: consistent_empty consistent_execute)

lemma reachable_run_sql: "reachable db \<Longrightarrow> reachable (snd (run_sql db sql))"
  by (cases "parse sql") (auto simp: run_sql_def intro: reachable.step)

lemma reachable_run_all: "reachable db \<Longrightarrow> reachable (run_all db sqls)"
  by (induction sqls arbitrary: db) (auto intro: reachable_run_sql)

section \<open>Case mapping\<close>

lemma of_char_lt: "(of_char c :: nat) < 256"
  by simp

lemma lower_char_idem: "lower_char (lower_char c) = lower_char c"
  using of_char_lt [of c]
  by (auto simp: lower_char_def Let_def)

lemma lower_upper_char:
  "(of_char c :: nat) \<notin> {181, 223, 255} \<Longrightarrow> lower_char (upper_char c) = lower_char c"
proof -
  have small: "(of_char c :: nat) < 256" by simp
  have cc: "char_of (of_char c :: nat) = c" by simp
  show ?thesis
  proof (cases "(97 \<le> (of_char c::nat) \<and> (of_char c::nat) \<le> 122) \<or> (224 \<le> (of_char c::nat) \<and> (of_char c::nat) \<le> 254 \<and> (of_char c::nat) \<noteq> 247)")
    case True
    then have u: "upper_char c = char_of ((of_char c :: nat) - 32)" by (simp add: upper_char_def)
    have n: "(of_char (char_of ((of_char c :: nat) - 32)) :: nat) = of_char c - 32"
    proof -
      have "(of_char c :: nat) - 32 < 256" using small by arith
      then show ?thesis by simp
    qed
    have "lower_char (char_of ((of_char c :: nat) - 32)) = char_of (of_char c - 32 + 32 :: nat)"
      unfolding lower_char_def Let_def n using True by auto
    also have "\<dots> = c" using True cc by (auto simp: )
    also have "lower_char c = c" using True by (auto simp: lower_char_def)
    ultimately show ?thesis using u by simp
  next
    case False
    then have "upper_char c = c" unfolding upper_char_def Let_def by (simp only: if_False)
    then show ?thesis by simp
  qed
qed

lemma lower_idem: "lower (lower s) = lower s"
  by (simp add: lower_def lower_char_idem)

lemma lower_upper: "upper_exact s \<Longrightarrow> lower (upper s) = lower s"
  by (simp add: lower_def upper_def upper_exact_def lower_upper_char)

section \<open>Creating tables\<close>

lemma keyed_by_name:
  assumes "reachable db"
  shows "(lower nm \<in> dom (tables db)) = (\<exists>t \<in> ran (tables db). lower (Table.name t) = lower nm)"
proof -
  have c: "consistent db" using assms by (rule reachable_consistent)
  show ?thesis
  proof
    assume "lower nm \<in> dom (tables db)"
    then obtain t where t: "tables db (lower nm) = Some t" by auto
    with c have "lower nm = lower (Table.name t)" by (simp add: consistent_def)
    with t show "\<exists>t \<in> ran (tables db). lower (Table.name t) = lower nm"
      by (auto simp: ran_def)
  next
    assume "\<exists>t \<in> ran (tables db). lower (Table.name t) = lower nm"
    then obtain t k where "tables db k = Some t" "lower (Table.name t) = lower nm"
      by (auto simp: ran_def)
    with c show "lower nm \<in> dom (tables db)" by (auto simp: consistent_def)
  qed
qed

text \<open>
  Claim C4. \<open>create_table\<close> fails exactly when the lower-cased name is a key of the
  database, and then returns the database as it was; in a reachable state that is exactly
  when some table's name agrees with the new name up to case. Otherwise the new table, with
  the name as written, the given columns and no rows, is stored under the lower-cased
  name, and \<open>get_table\<close> returns it for every name with the same lower-cased form, among
  them the lower-cased name and, where \<open>upper\<close> is \<open>str.upper\<close>, the upper-cased name.
\<close>

theorem create_table_case_insensitive:
  "((\<exists>e. fst (create_table db nm cols) = Inl e) = (lower nm \<in> dom (tables db))) \<and>
   (lower nm \<in> dom (tables db) \<longrightarrow>
      create_table db nm cols = (Inl (ValueError (TableAlreadyExists nm)), db)) \<and>
   (lower nm \<notin> dom (tables db) \<longrightarrow>
      create_table db nm cols =
        (Inr (), db\<lparr>tables := (tables db)(lower nm \<mapsto> new_table nm cols)\<rparr>) \<and>
      (\<forall>nm'. lower nm' = lower nm \<longrightarrow>
         get_table (snd (create_table db nm cols)) nm' = Inr (new_table nm cols)) \<and>
      (upper_exact nm \<longrightarrow>
         get_table (snd (create_table db nm cols)) (upper nm) = Inr (new_table nm cols)) \<and>
      get_table (snd (create_table db nm cols)) (lower nm) = Inr (new_table nm cols)) \<and>
   (reachable db \<longrightarrow>
      (lower nm \<in> dom (tables db)) =
      (\<exists>t \<in> ran (tables db). lower (Table.name t) = lower nm))"
  using keyed_by_name [of db nm]
  by (simp add: create_table_def get_table_def new_table_def Let_def lower_idem lower_upper)

lemma lower_Users: "lower ''Users'' = ''users''"
  by code_simp

lemma reachable_users_db: "reachable users_db"
proof -
  have "snd (execute empty_database (CreateTableStmt ''Users'' users_columns)) = users_db"
    by (simp add: execute_def create_table_def empty_database_def users_db_def users_table_def
        lower_Users)
  then show ?thesis using reachable.step [OF reachable.initial] by metis
qed

theorem create_table_case_insensitive_witness:
  "reachable users_db \<and> lower ''USERS'' \<in> dom (tables users_db) \<and>
   create_table users_db ''USERS'' [] = (Inl (ValueError (TableAlreadyExists ''USERS'')), users_db) \<and>
   lower ''Orders'' \<notin> dom (tables users_db) \<and>
   get_table (snd (create_table users_db ''Orders'' [])) ''ORDERS'' = Inr (new_table ''Orders'' []) \<and>
   upper_exact ''Orders'' \<and>
   get_table (snd (create_table users_db ''Orders'' [])) (upper ''Orders'') =
     Inr (new_table ''Orders'' [])"
proof -
  have l: "lower ''ORDERS'' = lower ''Orders''" by code_simp
  have l': "lower ''Orders'' = ''orders''" by code_simp
  have a: "lower ''USERS'' \<in> dom (tables users_db)" by (simp add: lower_users users_db_def)
  have b: "lower ''Orders'' \<notin> dom (tables users_db)" by (simp add: l' users_db_def)
  have c: "create_table users_db ''USERS'' [] =
      (Inl (ValueError (TableAlreadyExists ''USERS'')), users_db)"
    using create_table_case_insensitive [of users_db "''USERS''" "[]"] a by blast
  have "\<forall>nm'. lower nm' = lower ''Orders'' \<longrightarrow>
      get_table (snd (create_table users_db ''Orders'' [])) nm' = Inr (new_table ''Orders'' [])"
    using create_table_case_insensitive [of users_db "''Orders''" "[]"] b by blast
  then have d: "get_table (snd (create_table users_db ''Orders'' [])) ''ORDERS'' =
      Inr (new_table ''Orders'' [])"
    using l by blast
  have e: "upper_exact ''Orders''" by (simp add: upper_exact_def)
  have f: "get_table (snd (create_table users_db ''Orders'' [])) (upper ''Orders'') =
      Inr (new_table ''Orders'' [])"
    using create_table_case_insensitive [of users_db "''Orders''" "[]"] b e by blast
  show ?thesis using reachable_users_db a b c d e f by blast
qed

section \<open>Selecting\<close>

lemma insert_db_rows:
  assumes "get_table db n = Inr t"
  shows "(length vals = length (columns t) \<longrightarrow>
            insert_db db n vals =
              (Inr (), db\<lparr>tables := (tables db)(lower n \<mapsto>
                  t\<lparr>rows := rows t @ [bind_row [] (zip (columns t) vals)]\<rparr>)\<rparr>)) \<and>
         (length vals \<noteq> length (columns t) \<longrightarrow>
            insert_db db n vals =
              (Inl (ValueError (ExpectedValues (length (columns t)) (length vals))), db))"
proof -
  have "tables db (lower n) = Some t" using assms by (rule get_table_Some)
  then have "(tables db)(lower n \<mapsto> t) = tables db" by (simp add: map_upd_triv)
  then show ?thesis using assms by (simp add: insert_db_def insert_row_def)
qed

lemma project_keys:
  "project row cols acc = Inr p \<Longrightarrow>
   set (map fst p) = set (map fst acc) \<union> set cols \<and> (distinct (map fst acc) \<longrightarrow> distinct (map fst p))"
proof (induction row cols acc rule: project.induct)
  case (1 row projected)
  then show ?case by simp
next
  case (2 row col cols projected)
  then show ?case
    by (auto simp: keys_dict_setitem split: option.splits if_splits)
qed

lemma project_values:
  "project row cols acc = Inr p \<Longrightarrow>
   map_of p c = (if c \<in> set cols then map_of row c else map_of acc c)"
proof (induction row cols acc rule: project.induct)
  case (1 row projected)
  then show ?case by simp
next
  case (2 row col cols projected)
  then show ?case
    by (auto simp: map_of_dict_setitem dict_getitem_def split: option.splits if_splits)
qed

lemma project_succeeds:
  "set cols \<subseteq> set (map fst row) \<Longrightarrow> \<exists>p. project row cols acc = Inr p"
proof (induction row cols acc rule: project.induct)
  case (1 row projected)
  then show ?case by simp
next
  case (2 row col cols projected)
  from "2.prems" have "col \<in> fst ` set row" by simp
  then obtain v where v: "map_of row col = Some v"
    by (metis domD dom_map_of_conv_image_fst)
  with 2 show ?case by (simp add: dict_getitem_def)
qed

lemma project_rows_Inr:
  "project_rows rws cols acc = Inr res \<Longrightarrow>
   \<exists>ps. res = acc @ ps \<and> list_all2 (\<lambda>r p. project r cols [] = Inr p) rws ps"
proof (induction rws cols acc rule: project_rows.induct)
  case (1 cols result)
  then show ?case by simp
next
  case (2 row rest cols result)
  from "2.prems" obtain p where p: "project row cols [] = Inr p"
    by (auto split: sum.splits)
  with "2.prems" have "project_rows rest cols (result @ [p]) = Inr res" by simp
  from "2.IH" [OF p this] obtain ps where
    "res = (result @ [p]) @ ps" "list_all2 (\<lambda>r p. project r cols [] = Inr p) rest ps" by blast
  with p have "res = result @ (p # ps) \<and> list_all2 (\<lambda>r p. project r cols [] = Inr p) (row # rest) (p # ps)"
    by simp
  then show ?case by blast
qed

lemma project_rows_succeeds:
  "\<forall>r \<in> set rws. set cols \<subseteq> set (map fst r) \<Longrightarrow> \<exists>res. project_rows rws cols acc = Inr res"
proof (induction rws cols acc rule: project_rows.induct)
  case (1 cols result)
  then show ?case by simp
next
  case (2 row rest cols result)
  from "2.prems" obtain p where p: "project row cols [] = Inr p"
    using project_succeeds [of cols row "[]"] by auto
  with 2 show ?case by simp
qed

text \<open>
  Claim C3. In a reachable state, for a table that \<open>get_table\<close> finds, a select with an
  explicit column list fails exactly when some requested name is not a column name of the
  table, and every such failure is the \<open>KeyError\<close> that carries all the requested names
  that are missing, as a set the requested names without the column names. A select
  without a column list returns the stored rows, in their order.
\<close>

theorem select_unknown_columns:
  assumes "reachable db" and "get_table db n = Inr t"
  shows "((\<exists>e. select db n (Some cols) = Inl e) = (\<exists>c \<in> set cols. c \<notin> set (column_names t))) \<and>
         (\<forall>e. select db n (Some cols) = Inl e \<longrightarrow>
            (\<exists>missing. e = KeyError (UnknownColumns missing) \<and>
               missing = filter (\<lambda>c. c \<notin> set (column_names t)) cols \<and>
               set missing = set cols - set (column_names t))) \<and>
         select db n None = Inr (rows t)"
proof -
  have sel: "select db n (Some cols) = table_select t (Some cols)" "select db n None = table_select t None"
    using assms(2) by (simp_all add: select_def)
  have c: "consistent db" using assms(1) by (rule reachable_consistent)
  have t: "tables db (lower n) = Some t" using assms(2) by (rule get_table_Some)
  have rws: "\<forall>r \<in> set (rows t). set (map fst r) = set (column_names t)"
    using c t by (auto simp: consistent_def row_matches_def dict_keys_def)
  show ?thesis
  proof (cases "\<exists>c \<in> set cols. c \<notin> set (column_names t)")
    case True
    then have "filter (\<lambda>c. c \<notin> set (column_names t)) cols \<noteq> []"
      by (simp add: filter_empty_conv)
    then have "table_select t (Some cols) =
        Inl (KeyError (UnknownColumns (filter (\<lambda>c. c \<notin> set (column_names t)) cols)))"
      by (simp add: table_select_def)
    with True sel show ?thesis by (auto simp: table_select_def scan_def)
  next
    case False
    then have sub: "set cols \<subseteq> set (column_names t)" by auto
    then have "filter (\<lambda>c. c \<notin> set (column_names t)) cols = []"
      by (auto simp: filter_empty_conv)
    then have ts: "table_select t (Some cols) = project_rows (rows t) cols []"
      by (simp add: table_select_def scan_def)
    from rws sub have "\<forall>r \<in> set (rows t). set cols \<subseteq> set (map fst r)" by simp
    then obtain res where "project_rows (rows t) cols [] = Inr res"
      using project_rows_succeeds by blast
    with ts sel False show ?thesis by (auto simp: table_select_def scan_def)
  qed
qed

lemma count_list_distinct: "distinct xs \<Longrightarrow> x \<in> set xs \<Longrightarrow> count_list xs x = 1"
  by (induction xs) auto

text \<open>
  Claim C7. When a select with an explicit column list returns and a name \<open>c\<close> occurs
  more than once in the list, every returned row is a dict with pairwise different keys in
  which \<open>c\<close> is a key exactly once, bound to the value the stored row at the same position
  has for \<open>c\<close>; there is one returned row for each stored row.
\<close>

theorem select_duplicate_column_collapses:
  assumes "get_table db n = Inr t" and "select db n (Some cols) = Inr result"
    and "1 < count_list cols c"
  shows "length result = length (rows t) \<and>
         (\<forall>i < length result.
            distinct (dict_keys (result ! i)) \<and>
            count_list (dict_keys (result ! i)) c = 1 \<and>
            dict_getitem (result ! i) c = dict_getitem (rows t ! i) c \<and>
            dict_getitem (rows t ! i) c \<noteq> None)"
proof -
  have c: "c \<in> set cols" using assms(3) count_list_0_iff [of cols c] by force
  have "table_select t (Some cols) = Inr result" using assms(1,2) by (simp add: select_def)
  then have "project_rows (rows t) cols [] = Inr result"
    by (simp add: table_select_def scan_def Let_def split: if_splits)
  then have all2: "list_all2 (\<lambda>r p. project r cols [] = Inr p) (rows t) result"
    using project_rows_Inr by fastforce
  then have len: "length result = length (rows t)" by (simp add: list_all2_lengthD)
  have "distinct (dict_keys (result ! i)) \<and>
        count_list (dict_keys (result ! i)) c = 1 \<and>
        dict_getitem (result ! i) c = dict_getitem (rows t ! i) c \<and>
        dict_getitem (rows t ! i) c \<noteq> None" if i: "i < length result" for i
  proof -
    have p: "project (rows t ! i) cols [] = Inr (result ! i)"
      using list_all2_nthD [OF all2, of i] i len by simp
    have k: "set (map fst (result ! i)) = set cols" "distinct (map fst (result ! i))"
      using project_keys [OF p] by simp_all
    have v: "map_of (result ! i) c = map_of (rows t ! i) c"
      using project_values [OF p, of c] c by simp
    have "c \<in> fst ` set (result ! i)" using k(1) c by simp
    then have "map_of (result ! i) c \<noteq> None"
      by (metis domIff dom_map_of_conv_image_fst)
    moreover have "count_list (map fst (result ! i)) c = 1"
      using k c by (simp add: count_list_distinct)
    ultimately show ?thesis using k v by (simp add: dict_keys_def dict_getitem_def)
  qed
  with len show ?thesis by blast
qed

lemma insert_all_rows:
  "tables db (lower nm) = Some t \<Longrightarrow> \<forall>(n, vals) \<in> set ins. lower n = lower nm \<Longrightarrow>
   insert_all db ins = Inr db2 \<Longrightarrow>
   tables db2 (lower nm) =
     Some (t\<lparr>rows := rows t @ map (\<lambda>(n, vals). bind_row [] (zip (columns t) vals)) ins\<rparr>) \<and>
   (\<forall>(n, vals) \<in> set ins. length vals = length (columns t))"
proof (induction ins arbitrary: db t)
  case Nil
  then show ?case by simp
next
  case (Cons a ins)
  obtain n vals where a: "a = (n, vals)" by (cases a)
  from Cons.prems(2) a have ln: "lower n = lower nm" by simp
  with Cons.prems(1) have g: "get_table db n = Inr t" by (simp add: get_table_def)
  note ins = insert_db_rows [OF g, of vals]
  show ?case
  proof (cases "length vals = length (columns t)")
    case True
    define t' where "t' = t\<lparr>rows := rows t @ [bind_row [] (zip (columns t) vals)]\<rparr>"
    define db' where "db' = db\<lparr>tables := (tables db)(lower n \<mapsto> t')\<rparr>"
    from ins True have i: "insert_db db n vals = (Inr (), db')" by (simp add: db'_def t'_def)
    with Cons.prems(3) a have r: "insert_all db' ins = Inr db2" by simp
    have t': "tables db' (lower nm) = Some t'" by (simp add: db'_def ln)
    from Cons.prems(2) have "\<forall>(n, vals) \<in> set ins. lower n = lower nm" by simp
    from Cons.IH [OF t' this r] True a show ?thesis by (simp add: t'_def)
  next
    case False
    with ins have "fst (insert_db db n vals) \<noteq> Inr ()" by simp
    with Cons.prems(3) a show ?thesis by (auto split: prod.splits sum.splits)
  qed
qed

lemma lower_users_id: "lower ''users'' = ''users''"
  by code_simp

lemma bind_row_has_columns:
  assumes "length vals = length cols" and "c \<in> set cols"
  shows "dict_getitem (bind_row [] (zip cols vals)) (ColumnDef.name c) \<noteq> None"
proof -
  have "map (\<lambda>p. ColumnDef.name (fst p)) (zip cols vals) = map ColumnDef.name cols"
    using assms(1) by (simp flip: map_map [unfolded comp_def])
  then have "set (map fst (bind_row [] (zip cols vals))) = set (map ColumnDef.name cols)"
    using bind_row_keys_set [of "[]" "zip cols vals"] by simp
  then have "ColumnDef.name c \<in> fst ` set (bind_row [] (zip cols vals))"
    using assms(2) by auto
  then show ?thesis
    unfolding dict_getitem_def by (metis domIff dom_map_of_conv_image_fst)
qed

text \<open>
  Claim C1. After \<open>create_table\<close> has succeeded with the columns \<open>cols\<close> and a sequence of
  inserts into that table (under any casing of its name) has succeeded, a select without
  a column list returns as many rows as there were inserts, the rows the inserts built, in
  the order of the inserts, and every row has a value for every declared column.
\<close>

theorem select_star_round_trip:
  assumes "create_table db nm cols = (Inr (), db1)"
    and "\<forall>(n, vals) \<in> set ins. lower n = lower nm"
    and "insert_all db1 ins = Inr db2"
    and "lower nm' = lower nm"
  shows "\<exists>rws. select db2 nm' None = Inr rws \<and> length rws = length ins \<and>
           rws = map (\<lambda>(n, vals). bind_row [] (zip cols vals)) ins \<and>
           (\<forall>r \<in> set rws. \<forall>c \<in> set cols. dict_getitem r (ColumnDef.name c) \<noteq> None)"
proof -
  have "tables db1 (lower nm) = Some (new_table nm cols)"
    using assms(1) by (auto simp: create_table_def new_table_def Let_def split: if_splits)
  from insert_all_rows [OF this assms(2,3)]
  have t2: "tables db2 (lower nm) =
      Some ((new_table nm cols)\<lparr>rows := map (\<lambda>(n, vals). bind_row [] (zip cols vals)) ins\<rparr>)"
    and len: "\<forall>(n, vals) \<in> set ins. length vals = length cols"
    by (simp_all add: new_table_def)
  have "select db2 nm' None = Inr (map (\<lambda>(n, vals). bind_row [] (zip cols vals)) ins)"
    using t2 assms(4) by (simp add: select_def get_table_def table_select_def scan_def)
  moreover have "\<forall>r \<in> set (map (\<lambda>(n, vals). bind_row [] (zip cols vals)) ins).
      \<forall>c \<in> set cols. dict_getitem r (ColumnDef.name c) \<noteq> None"
    using len bind_row_has_columns by fastforce
  ultimately show ?thesis by simp
qed

lemma create_users: "create_table empty_database ''Users'' users_columns = (Inr (), users_db)"
  by (simp add: create_table_def empty_database_def users_db_def users_table_def lower_Users)

lemma insert_alice: "insert_db users_db ''users'' [IntV 1, StrV ''Alice''] = (Inr (), alice_db)"
  by (simp add: insert_db_def get_table_def insert_row_def users_db_def alice_db_def
      alice_table_def users_table_def users_columns_def lower_users_id)

theorem select_star_round_trip_witness:
  "create_table empty_database ''Users'' users_columns = (Inr (), users_db) \<and>
   lower ''users'' = lower ''Users'' \<and>
   insert_all users_db [(''users'', [IntV 1, StrV ''Alice''])] = Inr alice_db \<and>
   lower ''USERS'' = lower ''Users'' \<and>
   select alice_db ''USERS'' None = Inr [[(''id'', IntV 1), (''name'', StrV ''Alice'')]]"
proof -
  have h2: "\<forall>(n, vals) \<in> set [(''users'', [IntV 1, StrV ''Alice''])]. lower n = lower ''Users''"
    by (simp add: lower_users_id lower_Users)
  have h3: "insert_all users_db [(''users'', [IntV 1, StrV ''Alice''])] = Inr alice_db"
    by (simp add: insert_alice)
  have h4: "lower ''USERS'' = lower ''Users''" by (simp add: lower_users lower_Users)
  show ?thesis
    using select_star_round_trip [OF create_users h2 h3 h4] create_users h2 h3 h4
    by (simp add: users_columns_def)
qed

lemma reachable_alice_db: "reachable alice_db"
proof -
  have "snd (execute users_db (InsertStmt ''users'' [IntV 1, StrV ''Alice''])) = alice_db"
    by (simp add: execute_def insert_alice)
  then show ?thesis using reachable.step [OF reachable_users_db] by metis
qed

lemma get_table_alice: "get_table alice_db ''users'' = Inr alice_table"
  by (simp add: get_table_def alice_db_def lower_users_id)

theorem select_unknown_columns_witness:
  "reachable alice_db \<and> get_table alice_db ''users'' = Inr alice_table \<and>
   select alice_db ''users'' (Some [''age'', ''name'', ''zip'']) =
     Inl (KeyError (UnknownColumns [''age'', ''zip''])) \<and>
   (\<exists>rws. select alice_db ''users'' (Some [''name'']) = Inr rws) \<and>
   select alice_db ''users'' None = Inr (rows alice_table)"
proof -
  have cn: "column_names alice_table = [''id'', ''name'']"
    by (simp add: column_names_def alice_table_def users_table_def users_columns_def)
  note t1 = select_unknown_columns [OF reachable_alice_db get_table_alice, of "[''age'', ''name'', ''zip'']"]
  note t2 = select_unknown_columns [OF reachable_alice_db get_table_alice, of "[''name'']"]
  from t1 have "\<exists>e. select alice_db ''users'' (Some [''age'', ''name'', ''zip'']) = Inl e"
    by (simp add: cn)
  with t1 have a: "select alice_db ''users'' (Some [''age'', ''name'', ''zip'']) =
     Inl (KeyError (UnknownColumns [''age'', ''zip'']))"
    by (auto simp: cn)
  from t2 have "\<not> (\<exists>e. select alice_db ''users'' (Some [''name'']) = Inl e)"
    by (simp add: cn)
  then have b: "\<exists>rws. select alice_db ''users'' (Some [''name'']) = Inr rws"
    by (cases "select alice_db ''users'' (Some [''name''])") auto
  from t1 have c: "select alice_db ''users'' None = Inr (rows alice_table)" by blast
  show ?thesis using reachable_alice_db get_table_alice a b c by blast
qed

lemma select_name_name:
  "select alice_db ''users'' (Some [''name'', ''id'', ''name'']) =
     Inr [[(''name'', StrV ''Alice''), (''id'', IntV 1)]]"
  by (simp add: select_def get_table_alice table_select_def column_names_def scan_def
      alice_table_def users_table_def users_columns_def dict_getitem_def)

theorem select_duplicate_column_collapses_witness:
  "get_table alice_db ''users'' = Inr alice_table \<and>
   select alice_db ''users'' (Some [''name'', ''id'', ''name'']) =
     Inr [[(''name'', StrV ''Alice''), (''id'', IntV 1)]] \<and>
   1 < count_list [''name'', ''id'', ''name''] ''name'' \<and>
   count_list (dict_keys ([[(''name'', StrV ''Alice''), (''id'', IntV 1)]] ! 0)) ''name'' = 1 \<and>
   dict_getitem ([[(''name'', StrV ''Alice''), (''id'', IntV 1)]] ! 0) ''name'' =
     dict_getitem (rows alice_table ! 0) ''name''"
proof -
  have h3: "1 < count_list [''name'', ''id'', ''name''] ''name''" by simp
  from select_duplicate_column_collapses [OF get_table_alice select_name_name h3]
  show ?thesis using get_table_alice select_name_name h3 by simp
qed

text \<open>
  Claim C6, as amended. In every reachable state every row of every table has pairwise
  different keys, which are exactly the declared column names of its table, so one value
  for each different declared name; where the declared names are pairwise different the
  keys are the declared names in declared order, one value for each declared column.
\<close>

theorem rows_match_columns:
  assumes "reachable db" and "tables db k = Some t" and "r \<in> set (rows t)"
  shows "distinct (dict_keys r) \<and> set (dict_keys r) = set (column_names t) \<and>
         length r = card (set (column_names t)) \<and>
         (distinct (column_names t) \<longrightarrow>
            dict_keys r = column_names t \<and> length r = length (columns t))"
proof -
  have "consistent db" using assms(1) by (rule reachable_consistent)
  with assms(2,3) have m: "row_matches t r" by (auto simp: consistent_def)
  then have "length (dict_keys r) = card (set (column_names t))"
    by (metis row_matches_def distinct_card)
  moreover have "length (dict_keys r) = length r" by (simp add: dict_keys_def)
  moreover have "length (column_names t) = length (columns t)" by (simp add: column_names_def)
  ultimately show ?thesis using m by (auto simp: row_matches_def)
qed

theorem rows_match_columns_witness:
  "reachable alice_db \<and> tables alice_db ''users'' = Some alice_table \<and>
   [(''id'', IntV 1), (''name'', StrV ''Alice'')] \<in> set (rows alice_table) \<and>
   distinct (column_names alice_table) \<and>
   dict_keys [(''id'', IntV 1), (''name'', StrV ''Alice'')] = column_names alice_table"
proof -
  have h2: "tables alice_db ''users'' = Some alice_table" by (simp add: alice_db_def)
  have h3: "[(''id'', IntV 1), (''name'', StrV ''Alice'')] \<in> set (rows alice_table)"
    by (simp add: alice_table_def)
  have d: "distinct (column_names alice_table)"
    by (simp add: column_names_def alice_table_def users_table_def users_columns_def)
  from rows_match_columns [OF reachable_alice_db h2 h3] d
  show ?thesis using reachable_alice_db h2 h3 by blast
qed

text \<open>
  Claim C6 as stated fails where a column name is declared twice: the table has two
  declared columns and its one row has one value.
\<close>

theorem repeated_column_counterexample:
  "tables (run_all empty_database
      [''CREATE TABLE t (a INT, a INT)'', ''INSERT INTO t VALUES (1, 2)'']) ''t'' =
   Some \<lparr>Table.name = ''t'',
         columns = [\<lparr>ColumnDef.name = ''a'', col_type = T_INT, nullable = True, primary_key = False\<rparr>,
                    \<lparr>ColumnDef.name = ''a'', col_type = T_INT, nullable = True, primary_key = False\<rparr>],
         rows = [[(''a'', IntV 2)]]\<rparr>"
  by code_simp

section \<open>Tokenizing\<close>

lemma token_regex_match_result:
  assumes "token_regex_match sql i = Some (k, tx, g2, e)"
  shows "e = i + length tx \<and> tx \<noteq> [] \<and> g2 = (if k = NUMBER then Some tx else None)"
  using assms
  by (auto simp: token_regex_match_def match_WS_def match_NUMBER_def match_STRING_def
      match_IDENT_def match_char_def Let_def split: option.splits list.splits if_splits)

lemma token_regex_match_advances:
  "token_regex_match sql i = Some (k, tx, g2, e) \<Longrightarrow> i < e"
  using token_regex_match_result [of sql i k tx g2 e] by auto

lemma tokenize_loop_end: "\<not> i < length sql \<Longrightarrow> tokenize_loop sql i acc = Inr acc"
  by (simp add: tokenize_loop.simps)

lemma tokenize_loop_fail:
  "i < length sql \<Longrightarrow> token_regex_match sql i = None \<Longrightarrow>
   tokenize_loop sql i acc = Inl (SyntaxError (UnexpectedCharacter i (sql ! i)))"
  by (simp add: tokenize_loop.simps)

lemma tokenize_loop_step:
  "i < length sql \<Longrightarrow> token_regex_match sql i = Some (k, tx, g2, e) \<Longrightarrow>
   tokenize_loop sql i acc = tokenize_loop sql e (acc @ emitted k tx g2)"
  by (subst tokenize_loop.simps) (simp add: emitted_def)

lemma emitted_from_tokenizer:
  "token_regex_match sql i = Some (k, tx, g2, e) \<Longrightarrow> \<forall>t \<in> set (emitted k tx g2). from_tokenizer t"
  using token_regex_match_result [of sql i k tx g2 e]
  by (auto simp: emitted_def from_tokenizer_def)

lemma tokenize_loop_from_tokenizer:
  "tokenize_loop sql i acc = Inr toks \<Longrightarrow> \<forall>t \<in> set acc. from_tokenizer t \<Longrightarrow>
   \<forall>t \<in> set toks. from_tokenizer t"
proof (induction "length sql - i" arbitrary: i acc rule: less_induct)
  case less
  show ?case
  proof (cases "i < length sql")
    case False
    with less.prems show ?thesis by (simp add: tokenize_loop_end)
  next
    case True
    show ?thesis
    proof (cases "token_regex_match sql i")
      case None
      with True less.prems show ?thesis by (simp add: tokenize_loop_fail)
    next
      case (Some m)
      obtain k tx g2 e where m: "m = (k, tx, g2, e)" by (cases m)
      have adv: "i < e" using Some m token_regex_match_advances by blast
      have "tokenize_loop sql e (acc @ emitted k tx g2) = Inr toks"
        using less.prems(1) True Some m by (simp add: tokenize_loop_step)
      moreover have "\<forall>t \<in> set (acc @ emitted k tx g2). from_tokenizer t"
        using less.prems(2) emitted_from_tokenizer [OF Some [unfolded m]] by auto
      moreover have "length sql - e < length sql - i" using adv True by arith
      ultimately show ?thesis using less.hyps by blast
    qed
  qed
qed

lemma tokenize_from_tokenizer: "tokenize sql = Inr toks \<Longrightarrow> \<forall>t \<in> set toks. from_tokenizer t"
  using tokenize_loop_from_tokenizer [of sql 0 "[]" toks] by (simp add: tokenize_def)

text \<open>
  Claim C9, at a string literal. The token for \<open>'abc'\<close> has no text: \<open>tokenize\<close> takes
  \<open>match.group(2)\<close> for it, the group of the number alternative, which took no part in the
  match, where the quoted content is group 4. So an insert of the literal stores \<open>None\<close>.
  The five tokens of \<open>SELECT * FROM t;\<close> are those of the claim.
\<close>

theorem string_token_has_no_text:
  "token_regex_match (quote # ''abc'' @ [quote]) 0 = Some (STRING, quote # ''abc'' @ [quote], None, 5) \<and>
   tokenize (quote # ''abc'' @ [quote]) = Inr [\<lparr>kind = STRING, text = None\<rparr>] \<and>
   parse (''INSERT INTO t VALUES ('' @ quote # ''abc'' @ quote # '')'') = Inr (InsertStmt ''t'' [NoneV]) \<and>
   tokenize ''SELECT * FROM t;'' =
     Inr [\<lparr>kind = IDENT, text = Some ''SELECT''\<rparr>, \<lparr>kind = STAR, text = Some ''*''\<rparr>,
          \<lparr>kind = IDENT, text = Some ''FROM''\<rparr>, \<lparr>kind = IDENT, text = Some ''t''\<rparr>,
          \<lparr>kind = SEMICOLON, text = Some '';''\<rparr>]"
  by code_simp

lemma scan_reaches_loop:
  "scan_reaches sql i \<Longrightarrow> \<exists>acc. tokenize sql = tokenize_loop sql i acc"
proof (induction rule: scan_reaches.induct)
  case (start sql)
  then show ?case by (auto simp: tokenize_def)
next
  case (next_match sql i k tx g2 e)
  then show ?case by (metis tokenize_loop_step)
qed

lemma tokenize_loop_error:
  "tokenize_loop sql i acc = Inl err \<Longrightarrow> scan_reaches sql i \<Longrightarrow>
   \<exists>j < length sql. scan_reaches sql j \<and> token_regex_match sql j = None \<and>
      err = SyntaxError (UnexpectedCharacter j (sql ! j))"
proof (induction "length sql - i" arbitrary: i acc rule: less_induct)
  case less
  have lt: "i < length sql"
    using less.prems(1) by (cases "i < length sql") (simp_all add: tokenize_loop_end)
  show ?case
  proof (cases "token_regex_match sql i")
    case None
    with lt less.prems show ?thesis by (auto simp: tokenize_loop_fail)
  next
    case (Some m)
    obtain k tx g2 e where m: "m = (k, tx, g2, e)" by (cases m)
    have adv: "i < e" using Some m token_regex_match_advances by blast
    have "tokenize_loop sql e (acc @ emitted k tx g2) = Inl err"
      using less.prems(1) lt Some m by (simp add: tokenize_loop_step)
    moreover have "scan_reaches sql e"
      using less.prems(2) lt Some m scan_reaches.next_match by blast
    moreover have "length sql - e < length sql - i" using adv lt by arith
    ultimately show ?thesis using less.hyps by blast
  qed
qed

lemma takeWhile_short: "(length (takeWhile P xs) < length xs) = (\<exists>x \<in> set xs. \<not> P x)"
proof -
  have "length (takeWhile P xs) \<le> length xs" by (rule length_takeWhile_le)
  moreover have "(length (takeWhile P xs) = length xs) = (takeWhile P xs = xs)"
    by (metis takeWhile_dropWhile_id append_Nil2 append_eq_append_conv)
  ultimately show ?thesis by auto
qed

lemma no_match_iff:
  assumes "i < length sql"
  shows "(token_regex_match sql i = None) = no_pattern_at sql i"
proof -
  from assms obtain cs where d: "drop i sql = sql ! i # cs" "drop (Suc i) sql = cs"
    by (metis Cons_nth_drop_Suc)
  have q: "\<not> is_ident_start quote" by (simp add: is_ident_start_def quote_def)
  show ?thesis
    unfolding token_regex_match_def no_pattern_at_def Let_def d
    by (auto simp: match_WS_def match_NUMBER_def match_STRING_def match_IDENT_def match_char_def
        takeWhile_short q Let_def)
qed

lemma utf8_length_sum:
  "length xs \<le> sum_list (map utf8_length xs) \<and>
   ((sum_list (map utf8_length xs) = length xs) = (\<forall>c \<in> set xs. (of_char c :: nat) < 128))"
proof (induction xs)
  case Nil
  then show ?case by simp
next
  case (Cons x xs)
  then show ?case by (cases "(of_char x :: nat) < 128") (auto simp: utf8_length_def)
qed

lemma utf8_offset_ascii:
  assumes "i \<le> length sql"
  shows "(utf8_offset sql i = i) = (\<forall>c \<in> set (take i sql). (of_char c :: nat) < 128)"
proof -
  have "length (take i sql) = i" using assms by simp
  then show ?thesis
    using utf8_length_sum [of "take i sql"] by (simp add: utf8_offset_def)
qed

text \<open>
  Claim C8, as amended. When the scan reaches a position \<open>i\<close> inside the text at which no
  alternative of the pattern matches, \<open>tokenize\<close> fails with the \<open>SyntaxError\<close> that names
  \<open>i\<close>, the number of characters before the offending one, and the character there; every
  failure of \<open>tokenize\<close> is of this form. No alternative matches at \<open>i\<close> exactly when
  \<open>no_pattern_at\<close> holds, so a quote that the scan reaches and that no quote follows
  fails this way. The empty text gives no tokens. The position is the UTF-8 byte offset
  exactly when all characters before it are ASCII.
\<close>

theorem tokenize_unexpected_character:
  "(scan_reaches sql i \<and> i < length sql \<and> token_regex_match sql i = None \<longrightarrow>
      tokenize sql = Inl (SyntaxError (UnexpectedCharacter i (sql ! i)))) \<and>
   (\<forall>err. tokenize sql = Inl err \<longrightarrow>
      (\<exists>j < length sql. scan_reaches sql j \<and> token_regex_match sql j = None \<and>
         err = SyntaxError (UnexpectedCharacter j (sql ! j)))) \<and>
   (i < length sql \<longrightarrow> (token_regex_match sql i = None) = no_pattern_at sql i) \<and>
   (scan_reaches sql i \<and> i < length sql \<and> sql ! i = quote \<and> quote \<notin> set (drop (Suc i) sql) \<longrightarrow>
      tokenize sql = Inl (SyntaxError (UnexpectedCharacter i quote))) \<and>
   tokenize [] = Inr [] \<and>
   (i \<le> length sql \<longrightarrow>
      (utf8_offset sql i = i) = (\<forall>c \<in> set (take i sql). (of_char c :: nat) < 128))"
proof -
  have a: "tokenize sql = Inl (SyntaxError (UnexpectedCharacter i (sql ! i)))"
    if "scan_reaches sql i" "i < length sql" "token_regex_match sql i = None"
    using scan_reaches_loop [OF that(1)] that(2,3) by (auto simp: tokenize_loop_fail)
  have b: "\<exists>j < length sql. scan_reaches sql j \<and> token_regex_match sql j = None \<and>
         err = SyntaxError (UnexpectedCharacter j (sql ! j))" if "tokenize sql = Inl err" for err
    using that tokenize_loop_error [of sql 0 "[]" err] scan_reaches.start
    by (simp add: tokenize_def)
  have c: "tokenize sql = Inl (SyntaxError (UnexpectedCharacter i quote))"
    if "scan_reaches sql i" "i < length sql" "sql ! i = quote" "quote \<notin> set (drop (Suc i) sql)"
  proof -
    have "\<not> is_space quote" "\<not> is_digit quote" "\<not> is_ident_start quote" "quote \<notin> set ''(),*;''"
      by (simp_all add: is_space_def is_digit_def is_ident_start_def quote_def)
    with that have "no_pattern_at sql i" by (simp add: no_pattern_at_def)
    with that no_match_iff have "token_regex_match sql i = None" by blast
    with a that show ?thesis by metis
  qed
  have d: "tokenize [] = Inr []" by (simp add: tokenize_def tokenize_loop_end)
  show ?thesis using a b c d no_match_iff utf8_offset_ascii by blast
qed

text \<open>
  Claim C8 as stated fails twice. After a string with a character beyond ASCII the
  position in the error is 3 where the UTF-8 byte offset is 4; and inside a quoted string
  there is a position where no alternative matches although \<open>tokenize\<close> succeeds, since the
  scan never tries that position.
\<close>

theorem byte_offset_counterexample:
  "tokenize [quote, CHR 0xE9, quote, CHR ''$''] = Inl (SyntaxError (UnexpectedCharacter 3 (CHR ''$''))) \<and>
   utf8_offset [quote, CHR 0xE9, quote, CHR ''$''] 3 = 4 \<and>
   token_regex_match [quote, CHR ''$'', quote] 1 = None \<and>
   tokenize [quote, CHR ''$'', quote] = Inr [\<lparr>kind = STRING, text = None\<rparr>]"
  by code_simp

lemma scan_reaches_example: "scan_reaches ''a $'' 2"
proof -
  have m0: "token_regex_match ''a $'' 0 = Some (IDENT, ''a'', None, 1)" by code_simp
  have m1: "token_regex_match ''a $'' 1 = Some (WS, '' '', None, 2)" by code_simp
  have "scan_reaches ''a $'' 1"
    using scan_reaches.next_match [OF scan_reaches.start _ m0] by simp
  then show ?thesis
    using scan_reaches.next_match [OF _ _ m1] by simp
qed

theorem tokenize_unexpected_character_witness:
  "scan_reaches ''a $'' 2 \<and> 2 < length ''a $'' \<and> token_regex_match ''a $'' 2 = None \<and>
   tokenize ''a $'' = Inl (SyntaxError (UnexpectedCharacter 2 (CHR ''$''))) \<and>
   no_pattern_at ''a $'' 2 \<and> utf8_offset ''a $'' 2 = 2 \<and>
   utf8_offset [quote, CHR 0xE9, quote, CHR ''$''] 3 \<noteq> 3 \<and>
   tokenize (quote # ''ab'') = Inl (SyntaxError (UnexpectedCharacter 0 quote))"
proof -
  have n: "token_regex_match ''a $'' 2 = None" by code_simp
  have l: "(2::nat) < length ''a $''" by simp
  note t = tokenize_unexpected_character [of "''a $''" 2]
  from t scan_reaches_example l n
  have a: "tokenize ''a $'' = Inl (SyntaxError (UnexpectedCharacter 2 (''a $'' ! 2)))" by blast
  from t l n have b: "no_pattern_at ''a $'' 2" by blast
  have "\<forall>c \<in> set (take 2 ''a $''). (of_char c :: nat) < 128" by (simp add: numeral_2_eq_2)
  moreover have "(2::nat) \<le> length ''a $''" by simp
  ultimately have c: "utf8_offset ''a $'' 2 = 2" using t by blast
  have "\<not> (\<forall>c \<in> set (take 3 [quote, CHR 0xE9, quote, CHR ''$'']). (of_char c :: nat) < 128)"
    by (simp add: numeral_3_eq_3)
  moreover have "(3::nat) \<le> length [quote, CHR 0xE9, quote, CHR ''$'']" by simp
  ultimately have c': "utf8_offset [quote, CHR 0xE9, quote, CHR ''$''] 3 \<noteq> 3"
    using tokenize_unexpected_character [of "[quote, CHR 0xE9, quote, CHR ''$'']" 3] by blast
  have "quote \<notin> set (drop (Suc 0) (quote # ''ab''))" by (simp add: quote_def)
  with tokenize_unexpected_character [of "quote # ''ab''" 0] scan_reaches.start [of "quote # ''ab''"]
  have d: "tokenize (quote # ''ab'') = Inl (SyntaxError (UnexpectedCharacter 0 quote))" by simp
  have e: "''a $'' ! 2 = CHR ''$''" by (simp add: numeral_2_eq_2)
  show ?thesis using scan_reaches_example l n a b c c' d e by simp
qed

section \<open>Parsing\<close>

lemma peek_at_Nil: "peek (parser_at before []) = None"
  by (simp add: peek_def parser_at_def)

lemma peek_at_Cons: "peek (parser_at before (t # rest)) = Some t"
  by (simp add: peek_def parser_at_def)

lemma advance_at: "advance (parser_at before (t # rest)) = parser_at (before @ [t]) rest"
  by (simp add: advance_def parser_at_def)

lemma match_at_Nil: "match (parser_at before []) k None = Inl (SyntaxError (ExpectedGotEnd k))"
  by (simp add: match_def peek_at_Nil)

lemma match_at_Cons:
  "match (parser_at before (t # rest)) k None =
     (if kind t \<noteq> k then Inl (SyntaxError (ExpectedGot k t))
      else Inr (t, parser_at (before @ [t]) rest))"
  by (simp add: match_def peek_at_Cons advance_at)

lemma match_keyword_at_ident:
  "match_keyword (parser_at before (ident s # rest)) kw =
     (if upper s \<noteq> kw then Inl (SyntaxError (ExpectedKeyword kw (Some (ident s))))
      else Inr (ident s, parser_at (before @ [ident s]) rest))"
  by (simp add: match_keyword_def peek_at_Cons advance_at ident_def token_upper_def)

lemma optional_at_Nil: "optional (parser_at before []) k None = Inr (None, parser_at before [])"
  by (simp add: optional_def peek_at_Nil)

lemma optional_at_Cons:
  "optional (parser_at before (t # rest)) k None =
     (if kind t \<noteq> k then Inr (None, parser_at before (t # rest))
      else Inr (Some t, parser_at (before @ [t]) rest))"
  by (simp add: optional_def peek_at_Cons advance_at)

lemmas parser_at_simps = peek_at_Nil peek_at_Cons advance_at match_at_Nil match_at_Cons
  match_keyword_at_ident optional_at_Nil optional_at_Cons

lemma token_simps [simp]:
  "kind (ident s) = IDENT" "text (ident s) = Some s" "token_upper (ident s) = Inr (upper s)"
  "text_str (ident s) = Inr s"
  "kind lparen = LPAREN" "kind rparen = RPAREN" "kind comma = COMMA" "kind star = STAR"
  "kind semicolon = SEMICOLON"
  by (simp_all add: ident_def lparen_def rparen_def comma_def star_def semicolon_def
      token_upper_def text_str_def)

lemma from_sql_Inl:
  "upper ty \<notin> {''INT'', ''TEXT'', ''BOOL''} \<Longrightarrow> from_sql ty = Inl (ValueError (UnsupportedColumnType ty))"
  by (simp add: from_sql_def)

lemma from_sql_Inr:
  "upper ty \<in> {''INT'', ''TEXT'', ''BOOL''} \<Longrightarrow> \<exists>T. from_sql ty = Inr T"
  by (auto simp: from_sql_def)

lemma create_columns_loop_bad_type:
  assumes "\<forall>(c, ty) \<in> set cols. upper ty \<in> {''INT'', ''TEXT'', ''BOOL''}"
    and "upper bad \<notin> {''INT'', ''TEXT'', ''BOOL''}"
  shows "create_columns_loop (parser_at before (columns_before cols @ ident c # ident bad # rest)) acc =
         Inl (ValueError (UnsupportedColumnType bad))"
  using assms(1)
proof (induction cols arbitrary: before acc)
  case Nil
  show ?case
    by (subst create_columns_loop.simps)
      (simp add: columns_before_def parser_at_simps from_sql_Inl [OF assms(2)])
next
  case (Cons a cols)
  obtain c' ty where a: "a = (c', ty)" by (cases a)
  with Cons.prems obtain T where T: "from_sql ty = Inr T" using from_sql_Inr by fastforce
  have cb: "columns_before (a # cols) = ident c' # ident ty # comma # columns_before cols"
    by (simp add: columns_before_def a)
  from Cons.prems have "\<forall>(c, ty) \<in> set cols. upper ty \<in> {''INT'', ''TEXT'', ''BOOL''}" by simp
  note IH = Cons.IH [OF this]
  show ?case
    by (subst create_columns_loop.simps) (simp add: cb parser_at_simps T IH)
qed

lemma parser_start: "\<lparr>tokens = toks, pos = 0\<rparr> = parser_at [] toks"
  by (simp add: parser_at_def)

lemma parse_tokens_bad_type:
  assumes "upper cr = ''CREATE''" and "upper tb = ''TABLE''"
    and "\<forall>(c, ty) \<in> set cols. upper ty \<in> {''INT'', ''TEXT'', ''BOOL''}"
    and "upper bad \<notin> {''INT'', ''TEXT'', ''BOOL''}"
  shows "parse_tokens ([ident cr, ident tb, ident n, lparen] @ columns_before cols @
           [ident c, ident bad] @ rest) =
         Inl (ValueError (UnsupportedColumnType bad))"
  using assms(1,2)
  by (simp add: parse_tokens_def parser_start parse_statement_def parse_create_table_def
      parser_at_simps create_columns_loop_bad_type [OF assms(3,4)])

text \<open>
  Claim C5, as amended. When the tokens of the input are \<open>CREATE TABLE\<close>, a name, an
  opening parenthesis, any number of complete column declarations with a valid type and a
  comma, and then a column name with a type keyword that is not \<open>INT\<close>, \<open>TEXT\<close> or
  \<open>BOOL\<close> up to case, parsing fails with the \<open>ValueError\<close> of \<open>from_sql\<close>, which carries the
  keyword as written, whatever follows; it is not a \<open>SyntaxError\<close>.
\<close>

theorem unsupported_type_raises_value_error:
  assumes "upper cr = ''CREATE''" and "upper tb = ''TABLE''"
    and "\<forall>(c, ty) \<in> set cols. upper ty \<in> {''INT'', ''TEXT'', ''BOOL''}"
    and "upper bad \<notin> {''INT'', ''TEXT'', ''BOOL''}"
    and "tokenize sql = Inr ([ident cr, ident tb, ident n, lparen] @ columns_before cols @
           [ident c, ident bad] @ rest)"
  shows "parse sql = Inl (ValueError (UnsupportedColumnType bad)) \<and>
         (\<forall>e. parse sql \<noteq> Inl (SyntaxError e))"
  using parse_tokens_bad_type [OF assms(1-4)] assms(5) by (simp add: parse_def)

text \<open>
  Claim C5 as stated fails: the error for an unknown type keyword is a \<open>ValueError\<close>.
\<close>

theorem unsupported_type_counterexample:
  "parse ''CREATE TABLE t (a FLOAT)'' = Inl (ValueError (UnsupportedColumnType ''FLOAT''))"
  by code_simp

theorem unsupported_type_raises_value_error_witness:
  "upper ''create'' = ''CREATE'' \<and> upper ''Table'' = ''TABLE'' \<and>
   upper ''int'' \<in> {''INT'', ''TEXT'', ''BOOL''} \<and>
   upper ''Float'' \<notin> {''INT'', ''TEXT'', ''BOOL''} \<and>
   tokenize ''create Table t (a int, b Float, c INT)'' =
     Inr ([ident ''create'', ident ''Table'', ident ''t'', lparen] @ columns_before [(''a'', ''int'')] @
          [ident ''b'', ident ''Float''] @ [comma, ident ''c'', ident ''INT'', rparen]) \<and>
   parse ''create Table t (a int, b Float, c INT)'' = Inl (ValueError (UnsupportedColumnType ''Float''))"
proof -
  have h1: "upper ''create'' = ''CREATE''" by code_simp
  have h2: "upper ''Table'' = ''TABLE''" by code_simp
  have u: "upper ''int'' = ''INT''" by code_simp
  have h3: "\<forall>(c, ty) \<in> set [(''a'', ''int'')]. upper ty \<in> {''INT'', ''TEXT'', ''BOOL''}"
    by (simp add: u)
  have f: "upper ''Float'' = ''FLOAT''" by code_simp
  have h4: "upper ''Float'' \<notin> {''INT'', ''TEXT'', ''BOOL''}" by (simp add: f)
  have h5: "tokenize ''create Table t (a int, b Float, c INT)'' =
     Inr ([ident ''create'', ident ''Table'', ident ''t'', lparen] @ columns_before [(''a'', ''int'')] @
          [ident ''b'', ident ''Float''] @ [comma, ident ''c'', ident ''INT'', rparen])"
    by code_simp
  from unsupported_type_raises_value_error [OF h1 h2 h3 h4 h5]
  show ?thesis using h1 h2 h4 h5 u by simp
qed

lemma from_sql_type_keyword: "from_sql (type_keyword T) = Inr T"
  by (cases T) (simp_all add: type_keyword_def, code_simp+)

lemma optional_no_comma:
  "rest = [] \<or> kind (hd rest) \<noteq> COMMA \<Longrightarrow>
   optional (parser_at before rest) COMMA None = Inr (None, parser_at before rest)"
  by (cases rest) (auto simp: parser_at_simps)

lemma create_columns_loop_accepts:
  assumes "rest = [] \<or> kind (hd rest) \<noteq> COMMA"
  shows "cols \<noteq> [] \<Longrightarrow>
    create_columns_loop
      (parser_at before
        (comma_separated (map (\<lambda>(c, T). [ident c, ident (type_keyword T)]) cols) @ rest)) acc =
    Inr (acc @ map (\<lambda>(c, T). column c T) cols,
         parser_at
           (before @ comma_separated (map (\<lambda>(c, T). [ident c, ident (type_keyword T)]) cols)) rest)"
proof (induction cols arbitrary: before acc rule: induct_list012)
  case 1
  then show ?case by simp
next
  case (2 x)
  obtain c T where x: "x = (c, T)" by (cases x)
  show ?case
    by (subst create_columns_loop.simps)
      (simp add: x parser_at_simps from_sql_type_keyword optional_no_comma [OF assms] column_def)
next
  case (3 x y zs)
  obtain c T where x: "x = (c, T)" by (cases x)
  define tail where "tail = comma_separated (map (\<lambda>(c, T). [ident c, ident (type_keyword T)]) (y # zs))"
  define more_cols where "more_cols = map (\<lambda>(c, T). column c T) (y # zs)"
  have shape: "comma_separated (map (\<lambda>(c, T). [ident c, ident (type_keyword T)]) (x # y # zs)) =
      ident c # ident (type_keyword T) # comma # tail"
    by (simp add: x tail_def)
  have cols_shape: "map (\<lambda>(c, T). column c T) (x # y # zs) = column c T # more_cols"
    by (simp add: x more_cols_def)
  have IH: "create_columns_loop (parser_at b (tail @ rest)) a =
      Inr (a @ more_cols, parser_at (b @ tail) rest)" for b a
    using 3(2) by (simp add: tail_def more_cols_def)
  show ?case
    unfolding shape cols_shape
    by (subst create_columns_loop.simps)
      (simp add: parser_at_simps from_sql_type_keyword IH column_def)
qed

lemma select_columns_loop_accepts:
  assumes "rest = [] \<or> kind (hd rest) \<noteq> COMMA"
  shows "names \<noteq> [] \<Longrightarrow>
    select_columns_loop (parser_at before (comma_separated (map (\<lambda>c. [ident c]) names) @ rest)) acc =
    Inr (acc @ names, parser_at (before @ comma_separated (map (\<lambda>c. [ident c]) names)) rest)"
proof (induction names arbitrary: before acc rule: induct_list012)
  case 1
  then show ?case by simp
next
  case (2 x)
  show ?case
    by (subst select_columns_loop.simps)
      (simp add: parser_at_simps optional_no_comma [OF assms])
next
  case (3 x y zs)
  define tail where "tail = comma_separated (map (\<lambda>c. [ident c]) (y # zs))"
  have shape: "comma_separated (map (\<lambda>c. [ident c]) (x # y # zs)) = ident x # comma # tail"
    by (simp add: tail_def)
  have IH: "select_columns_loop (parser_at b (tail @ rest)) a =
      Inr (a @ y # zs, parser_at (b @ tail) rest)" for b a
    using 3(2) by (simp add: tail_def)
  show ?case
    unfolding shape
    by (subst select_columns_loop.simps) (simp add: parser_at_simps IH)
qed

lemma insert_values_loop_accepts:
  assumes "rest = [] \<or> kind (hd rest) \<noteq> COMMA"
  shows "lits \<noteq> [] \<Longrightarrow> \<forall>t \<in> set lits. is_literal t \<Longrightarrow>
    insert_values_loop (parser_at before (comma_separated (map (\<lambda>t. [t]) lits) @ rest)) acc =
    Inr (acc @ map literal_value lits, parser_at (before @ comma_separated (map (\<lambda>t. [t]) lits)) rest)"
proof (induction lits arbitrary: before acc rule: induct_list012)
  case 1
  then show ?case by simp
next
  case (2 x)
  then show ?case
    by (subst insert_values_loop.simps)
      (auto simp: parser_at_simps optional_no_comma [OF assms] literal_value_def is_literal_def
        number_value_def text_str_def int_of_str_def is_digits_def split: option.splits)
next
  case (3 x y zs)
  define tail where "tail = comma_separated (map (\<lambda>t. [t]) (y # zs))"
  have shape: "comma_separated (map (\<lambda>t. [t]) (x # y # zs)) = x # comma # tail"
    by (simp add: tail_def)
  have IH: "insert_values_loop (parser_at b (tail @ rest)) a =
      Inr (a @ map literal_value (y # zs), parser_at (b @ tail) rest)" for b a
    using 3(2,4) by (simp add: tail_def)
  from 3(4) have x: "is_literal x" by simp
  show ?case
    unfolding shape using x
    by (subst insert_values_loop.simps)
      (auto simp: parser_at_simps IH literal_value_def is_literal_def number_value_def text_str_def
        int_of_str_def is_digits_def split: option.splits)
qed

lemma keyword_upper:
  "upper ''CREATE'' = ''CREATE''" "upper ''TABLE'' = ''TABLE''" "upper ''INSERT'' = ''INSERT''"
  "upper ''INTO'' = ''INTO''" "upper ''VALUES'' = ''VALUES''" "upper ''SELECT'' = ''SELECT''"
  "upper ''FROM'' = ''FROM''"
  by code_simp+

lemma parse_tokens_create:
  assumes "cols \<noteq> []" and "statement_end tail"
  shows "parse_tokens ([ident ''CREATE'', ident ''TABLE'', ident n, lparen] @
           comma_separated (map (\<lambda>(c, T). [ident c, ident (type_keyword T)]) cols) @
           [rparen] @ tail) =
         Inr (CreateTableStmt n (map (\<lambda>(c, T). column c T) cols))"
proof (cases "tail = []")
  case True
  have r: "[rparen] = [] \<or> kind (hd [rparen]) \<noteq> COMMA" by simp
  show ?thesis
    unfolding True
    by (simp add: parse_tokens_def parser_start parse_statement_def parse_create_table_def
        parser_at_simps keyword_upper create_columns_loop_accepts [OF r assms(1)])
next
  case False
  with assms(2) have t: "tail = [semicolon]" by (simp add: statement_end_def)
  have r: "[rparen, semicolon] = [] \<or> kind (hd [rparen, semicolon]) \<noteq> COMMA" by simp
  show ?thesis
    unfolding t
    by (simp add: parse_tokens_def parser_start parse_statement_def parse_create_table_def
        parser_at_simps keyword_upper create_columns_loop_accepts [OF r assms(1)])
qed

lemma parse_tokens_insert:
  assumes "lits \<noteq> []" and "\<forall>t \<in> set lits. is_literal t"
    and "statement_end tail"
  shows "parse_tokens ([ident ''INSERT'', ident ''INTO'', ident n, ident ''VALUES'', lparen] @
           comma_separated (map (\<lambda>t. [t]) lits) @ [rparen] @ tail) =
         Inr (InsertStmt n (map literal_value lits))"
proof (cases "tail = []")
  case True
  have r: "[rparen] = [] \<or> kind (hd [rparen]) \<noteq> COMMA" by simp
  show ?thesis
    unfolding True
    by (simp add: parse_tokens_def parser_start parse_statement_def parse_insert_def
        parser_at_simps keyword_upper insert_values_loop_accepts [OF r assms(1,2)])
next
  case False
  with assms(3) have t: "tail = [semicolon]" by (simp add: statement_end_def)
  have r: "[rparen, semicolon] = [] \<or> kind (hd [rparen, semicolon]) \<noteq> COMMA" by simp
  show ?thesis
    unfolding t
    by (simp add: parse_tokens_def parser_start parse_statement_def parse_insert_def
        parser_at_simps keyword_upper insert_values_loop_accepts [OF r assms(1,2)])
qed

lemma parse_tokens_select_rest:
  assumes "names \<noteq> []" and "rest = [ident ''FROM'', ident n] \<or> rest = [ident ''FROM'', ident n, semicolon]"
  shows "parse_tokens ([ident ''SELECT''] @ comma_separated (map (\<lambda>c. [ident c]) names) @ rest) =
         Inr (SelectStmt n (Some names))"
proof -
  have r: "rest = [] \<or> kind (hd rest) \<noteq> COMMA" using assms(2) by auto
  obtain x xs where names: "names = x # xs" using assms(1) by (cases names) auto
  have "\<exists>tl. comma_separated (map (\<lambda>c. [ident c]) names) @ rest = ident x # tl"
    unfolding names by (cases xs) auto
  then obtain tl where tl: "comma_separated (map (\<lambda>c. [ident c]) names) @ rest = ident x # tl"
    by blast
  have pk: "peek (parser_at [ident ''SELECT''] (comma_separated (map (\<lambda>c. [ident c]) names) @ rest)) =
      Some (ident x)"
    unfolding tl by (simp add: parser_at_simps)
  have loop: "select_columns_loop
      (parser_at [ident ''SELECT''] (comma_separated (map (\<lambda>c. [ident c]) names) @ rest)) [] =
    Inr (names, parser_at ([ident ''SELECT''] @ comma_separated (map (\<lambda>c. [ident c]) names)) rest)"
    using select_columns_loop_accepts [OF r assms(1), of "[ident ''SELECT'']" "[]"] by simp
  have first: "parse_statement (parser_at [] (ident ''SELECT'' # more)) =
      parse_select (parser_at [] (ident ''SELECT'' # more))" for more
    by (simp add: parse_statement_def parser_at_simps keyword_upper)
  have after_loop: "parse_select
      (parser_at [] (ident ''SELECT'' # comma_separated (map (\<lambda>c. [ident c]) names) @ rest)) =
    (case match_keyword
        (parser_at ([ident ''SELECT''] @ comma_separated (map (\<lambda>c. [ident c]) names)) rest) ''FROM'' of
       Inl e \<Rightarrow> Inl e
     | Inr (_, p4) \<Rightarrow>
         (case match p4 IDENT None of
            Inl e \<Rightarrow> Inl e
          | Inr (table_tok, p5) \<Rightarrow>
              (case text_str table_tok of
                 Inl e \<Rightarrow> Inl e
               | Inr table_name \<Rightarrow>
                   (case optional p5 SEMICOLON None of
                      Inl e \<Rightarrow> Inl e
                    | Inr (_, p6) \<Rightarrow> Inr (SelectStmt table_name (Some names), p6)))))"
    using pk loop by (simp add: parse_select_def parser_at_simps keyword_upper)
  have "parse_statement (parser_at [] ([ident ''SELECT''] @ comma_separated (map (\<lambda>c. [ident c]) names) @ rest)) =
      Inr (SelectStmt n (Some names),
           parser_at ([ident ''SELECT''] @ comma_separated (map (\<lambda>c. [ident c]) names) @ rest) [])"
  proof (cases "rest = [ident ''FROM'', ident n]")
    case True
    show ?thesis
      unfolding append_Cons append_Nil first after_loop
      by (simp add: True parser_at_simps keyword_upper)
  next
    case False
    with assms(2) have rest: "rest = [ident ''FROM'', ident n, semicolon]" by simp
    show ?thesis
      unfolding append_Cons append_Nil first after_loop
      by (simp add: rest parser_at_simps keyword_upper)
  qed
  then show ?thesis
    by (simp add: parse_tokens_def parser_start parser_at_simps)
qed

lemma parse_tokens_select:
  assumes "names \<noteq> []" and "statement_end tail"
  shows "parse_tokens ([ident ''SELECT''] @ comma_separated (map (\<lambda>c. [ident c]) names) @
           [ident ''FROM'', ident n] @ tail) =
         Inr (SelectStmt n (Some names))"
  using parse_tokens_select_rest [OF assms(1), of "[ident ''FROM'', ident n] @ tail" n] assms(2)
  by (auto simp: statement_end_def)

lemma parse_tokens_select_star:
  assumes "statement_end tail"
  shows "parse_tokens ([ident ''SELECT'', star, ident ''FROM'', ident n] @ tail) =
         Inr (SelectStmt n None)"
  using assms
  by (auto simp: parse_tokens_def parser_start parse_statement_def parse_select_def
      parser_at_simps keyword_upper statement_end_def)

lemma tokenize_identifier:
  assumes "is_identifier s"
  shows "tokenize s = Inr [ident s]"
proof -
  from assms obtain c cs where s: "s = c # cs" and c: "is_ident_start c"
    and cs: "\<forall>x \<in> set cs. is_ident_char x"
    by (cases s) (auto simp: is_identifier_def)
  have n: "\<not> is_space c" "\<not> is_digit c" "c \<noteq> quote"
    using c by (auto simp: is_ident_start_def is_space_def is_digit_def quote_def Let_def)
  have tw: "takeWhile is_ident_char cs = cs" using cs by simp
  have "token_regex_match s 0 = Some (IDENT, s, None, length s)"
    by (simp add: token_regex_match_def match_WS_def match_NUMBER_def match_STRING_def
        match_IDENT_def s n c tw)
  then have "tokenize_loop s 0 [] = tokenize_loop s (length s) [ident s]"
    using s by (simp add: tokenize_loop_step emitted_def ident_def)
  then show ?thesis by (simp add: tokenize_def tokenize_loop_end)
qed

text \<open>
  Claim C10. The texts \<open>n\<close>, \<open>c\<close> and \<open>names\<close> of the identifier tokens in name position are
  arbitrary, so they may spell keywords: a \<open>CREATE TABLE\<close> with any table name and any
  column names, an \<open>INSERT\<close> of literal tokens (numbers of at most 4300 digits, strings)
  into any table name, and a \<open>SELECT\<close> of any column names or of \<open>*\<close> from any table
  name, with or without the closing semicolon, parse to the statement with these names. The tokenizer makes an identifier token of every text of
  identifier shape, whatever it spells.
  \<open>CREATE TABLE select (from INT)\<close> parses, and after it an insert into \<open>select\<close> and a
  select of \<open>from\<close> run and return the inserted row.
\<close>

theorem keywords_are_not_reserved:
  "(cols \<noteq> [] \<and> statement_end tail \<longrightarrow>
      parse_tokens ([ident ''CREATE'', ident ''TABLE'', ident n, lparen] @
        comma_separated (map (\<lambda>(c, T). [ident c, ident (type_keyword T)]) cols) @
        [rparen] @ tail) =
      Inr (CreateTableStmt n (map (\<lambda>(c, T). column c T) cols))) \<and>
   (lits \<noteq> [] \<and> (\<forall>t \<in> set lits. is_literal t) \<and> statement_end tail \<longrightarrow>
      parse_tokens ([ident ''INSERT'', ident ''INTO'', ident n, ident ''VALUES'', lparen] @
        comma_separated (map (\<lambda>t. [t]) lits) @ [rparen] @ tail) =
      Inr (InsertStmt n (map literal_value lits))) \<and>
   (names \<noteq> [] \<and> statement_end tail \<longrightarrow>
      parse_tokens ([ident ''SELECT''] @ comma_separated (map (\<lambda>c. [ident c]) names) @
        [ident ''FROM'', ident n] @ tail) =
      Inr (SelectStmt n (Some names))) \<and>
   (statement_end tail \<longrightarrow>
      parse_tokens ([ident ''SELECT'', star, ident ''FROM'', ident n] @ tail) =
      Inr (SelectStmt n None)) \<and>
   (is_identifier s \<longrightarrow> tokenize s = Inr [ident s]) \<and>
   parse ''CREATE TABLE select (from INT)'' = Inr (CreateTableStmt ''select'' [column ''from'' T_INT]) \<and>
   run_sql (run_all empty_database
       [''CREATE TABLE select (from INT)'', ''INSERT INTO select VALUES (1)''])
     ''SELECT from FROM select'' =
   (Inr (Some [[(''from'', IntV 1)]]),
    run_all empty_database [''CREATE TABLE select (from INT)'', ''INSERT INTO select VALUES (1)''])"
proof -
  have a: "parse ''CREATE TABLE select (from INT)'' =
      Inr (CreateTableStmt ''select'' [column ''from'' T_INT])"
    by code_simp
  have b: "fst (run_sql (run_all empty_database
       [''CREATE TABLE select (from INT)'', ''INSERT INTO select VALUES (1)''])
     ''SELECT from FROM select'') = Inr (Some [[(''from'', IntV 1)]])"
    by code_simp
  have "parse ''SELECT from FROM select'' = Inr (SelectStmt ''select'' (Some [''from'']))"
    by code_simp
  then have c: "snd (run_sql db ''SELECT from FROM select'') = db" for db
    by (simp add: run_sql_def execute_def)
  from b c have d: "run_sql (run_all empty_database
       [''CREATE TABLE select (from INT)'', ''INSERT INTO select VALUES (1)''])
     ''SELECT from FROM select'' =
   (Inr (Some [[(''from'', IntV 1)]]),
    run_all empty_database [''CREATE TABLE select (from INT)'', ''INSERT INTO select VALUES (1)''])"
    by (metis prod.collapse)
  show ?thesis
    using a d
    by (simp add: parse_tokens_create parse_tokens_insert parse_tokens_select
        parse_tokens_select_star tokenize_identifier del: append.simps)
qed

theorem keywords_are_not_reserved_witness:
  "statement_end [semicolon] \<and>
   parse_tokens [ident ''CREATE'', ident ''TABLE'', ident ''select'', lparen,
      ident ''from'', ident ''INT'', comma, ident ''table'', ident ''TEXT'', rparen, semicolon] =
     Inr (CreateTableStmt ''select'' [column ''from'' T_INT, column ''table'' T_TEXT]) \<and>
   parse_tokens [ident ''INSERT'', ident ''INTO'', ident ''select'', ident ''VALUES'', lparen,
      number ''1'', comma, string_token, rparen, semicolon] =
     Inr (InsertStmt ''select'' [IntV 1, NoneV]) \<and>
   parse_tokens [ident ''SELECT'', ident ''from'', comma, ident ''table'', ident ''FROM'',
      ident ''select'', semicolon] =
     Inr (SelectStmt ''select'' (Some [''from'', ''table''])) \<and>
   parse_tokens [ident ''SELECT'', star, ident ''FROM'', ident ''select'', semicolon] =
     Inr (SelectStmt ''select'' None) \<and>
   is_identifier ''select'' \<and> tokenize ''select'' = Inr [ident ''select'']"
proof -
  note t = keywords_are_not_reserved [of "[(''from'', T_INT), (''table'', T_TEXT)]" "[semicolon]"
      "''select''" "[number ''1'', string_token]" "[''from'', ''table'']" "''select''"]
  have se: "statement_end [semicolon]" by (simp add: statement_end_def)
  have sh: "is_identifier ''select''"
    by (simp add: is_identifier_def is_ident_start_def is_ident_char_def)
  have i: "int_of_text ''1'' = 1" by (simp add: int_of_text_def)
  from t se have a: "parse_tokens [ident ''CREATE'', ident ''TABLE'', ident ''select'', lparen,
      ident ''from'', ident ''INT'', comma, ident ''table'', ident ''TEXT'', rparen, semicolon] =
     Inr (CreateTableStmt ''select'' [column ''from'' T_INT, column ''table'' T_TEXT])"
    by (simp add: type_keyword_def)
  from t se have b: "parse_tokens [ident ''INSERT'', ident ''INTO'', ident ''select'', ident ''VALUES'', lparen,
      number ''1'', comma, string_token, rparen, semicolon] =
     Inr (InsertStmt ''select'' [IntV 1, NoneV])"
    by (simp add: literal_value_def i is_literal_def number_def string_token_def string_value_def
        is_digits_def is_digit_def int_max_str_digits_def)
  from t se have c: "parse_tokens [ident ''SELECT'', ident ''from'', comma, ident ''table'', ident ''FROM'',
      ident ''select'', semicolon] =
     Inr (SelectStmt ''select'' (Some [''from'', ''table'']))"
    by simp
  from t se have d: "parse_tokens [ident ''SELECT'', star, ident ''FROM'', ident ''select'', semicolon] =
     Inr (SelectStmt ''select'' None)"
    by simp
  from t sh have e: "tokenize ''select'' = Inr [ident ''select'']" by blast
  show ?thesis using a b c d e se sh by blast
qed

end
